theory Spec2Isabelle
  imports Complex_Main
begin

section \<open>Data model\<close>

text \<open>
  The engine computes with \<^verbatim>\<open>float\<close> and \<^verbatim>\<open>sf::Vector2f\<close>. The model takes the
  value of a \<^verbatim>\<open>float\<close> as a \<^typ>\<open>real\<close>; a vector is a pair of reals with the
  componentwise operators of \<^verbatim>\<open>sf::Vector2f\<close>.

  Where a comparison of computed bounds decides the shape of the tree (the box test, the
  quadrants of a subdivision, the root boundary), the rounding of every \<^verbatim>\<open>float\<close>
  operation is explicit: these definitions take the rounding \<open>fl\<close> as a parameter, and the
  operation that the source writes \<^verbatim>\<open>x + y\<close> yields \<open>fl (x + y)\<close>. For binary32, \<open>fl\<close>
  is \<open>float_round\<close> below, which rounds a real to the nearest representable value. With
  the identity for \<open>fl\<close> the arithmetic is exact; the names of the source stand for this
  instance, which computes what binary32 computes wherever every intermediate value is
  representable. Overflow to an infinity and NaN are outside the model.

  The cached masses, the forces and the integrator are values that no construction of
  the tree depends on; they are computed exactly.
\<close>

type_synonym Vector2f = "real \<times> real"

definition vadd :: "Vector2f \<Rightarrow> Vector2f \<Rightarrow> Vector2f" where
  "vadd u v = (fst u + fst v, snd u + snd v)"

definition vsub :: "Vector2f \<Rightarrow> Vector2f \<Rightarrow> Vector2f" where
  "vsub u v = (fst u - fst v, snd u - snd v)"

definition vmul :: "Vector2f \<Rightarrow> real \<Rightarrow> Vector2f" where
  "vmul v k = (fst v * k, snd v * k)"

text \<open>The sum and the scaling of vectors, each component rounded.\<close>

definition vadd_fl :: "(real \<Rightarrow> real) \<Rightarrow> Vector2f \<Rightarrow> Vector2f \<Rightarrow> Vector2f" where
  "vadd_fl fl u v = (fl (fst u + fst v), fl (snd u + snd v))"

definition vmul_fl :: "(real \<Rightarrow> real) \<Rightarrow> Vector2f \<Rightarrow> real \<Rightarrow> Vector2f" where
  "vmul_fl fl v k = (fl (fst v * k), fl (snd v * k))"

text \<open>
  The rounding of binary32 arithmetic: to the nearest representable value, a tie to the
  value of even significand. A real of binary exponent \<open>e \<ge> - 126\<close> is rounded to a
  multiple of \<open>2 powi (e - 23)\<close>, a smaller one to a multiple of \<open>2 powi (- 149)\<close>, the
  least positive value (gradual underflow). The exponent has no upper end here: where
  the machine gives an infinity, \<open>float_round\<close> rounds as it does below.
\<close>

definition roundeven :: "real \<Rightarrow> int" where
  "roundeven y =
     (let n = \<lfloor>y\<rfloor>
      in if y - of_int n < 1 / 2 then n
         else if 1 / 2 < y - of_int n then n + 1
         else if even n then n else n + 1)"

definition float_quantum :: "real \<Rightarrow> real" where
  "float_quantum x = 2 powi (max \<lfloor>log 2 \<bar>x\<bar>\<rfloor> (- 126) - 23)"

definition float_round :: "real \<Rightarrow> real" where
  "float_round x =
     (if x = 0 then 0 else of_int (roundeven (x / float_quantum x)) * float_quantum x)"

definition float_least :: real where
  "float_least = 2 powi (- 149)"

text \<open>
  The quotient of a vector by a scalar. Where the scalar is 0 the \<^verbatim>\<open>float\<close> quotient is
  an infinity or a NaN, which the model does not represent (HOL gives 0 there);
  no statement below relies on the value of a quotient by 0.
\<close>

definition vdiv :: "Vector2f \<Rightarrow> real \<Rightarrow> Vector2f" where
  "vdiv v k = (fst v / k, snd v / k)"

text \<open>
  \<^verbatim>\<open>class Particle\<close> of main.cpp. The fields \<^verbatim>\<open>color\<close>, \<^verbatim>\<open>name\<close> and \<^verbatim>\<open>trail\<close>
  belong to the rendering and are left out.
\<close>

record Particle =
  position :: Vector2f
  velocity :: Vector2f
  acceleration :: Vector2f
  mass :: real
  fixed :: bool

text \<open>
  \<^verbatim>\<open>QuadTreeNode::Boundary\<close>. The box test compares the coordinates of the point with
  the four computed bounds \<^verbatim>\<open>center.x - halfSize\<close>, \<^verbatim>\<open>center.x + halfSize\<close>,
  \<^verbatim>\<open>center.y - halfSize\<close> and \<^verbatim>\<open>center.y + halfSize\<close>.
\<close>

record Boundary =
  center :: Vector2f
  halfSize :: real

definition contains_fl :: "(real \<Rightarrow> real) \<Rightarrow> Boundary \<Rightarrow> Vector2f \<Rightarrow> bool" where
  "contains_fl fl b point \<longleftrightarrow>
     fst point \<ge> fl (fst (center b) - halfSize b) \<and> fst point \<le> fl (fst (center b) + halfSize b) \<and>
     snd point \<ge> fl (snd (center b) - halfSize b) \<and> snd point \<le> fl (snd (center b) + halfSize b)"

abbreviation contains :: "Boundary \<Rightarrow> Vector2f \<Rightarrow> bool" where
  "contains \<equiv> contains_fl (\<lambda>x. x)"

definition MAX_PARTICLES :: nat where
  "MAX_PARTICLES = 1"

text \<open>
  \<^verbatim>\<open>class QuadTreeNode\<close>. The tree stores \<^verbatim>\<open>const Particle*\<close>, pointers into the
  particle vector handed to \<^verbatim>\<open>build\<close>; the model stores the index of the particle in that
  vector, so that pointer equality is equality of indices and two particles with equal
  fields stay different. The four owned child slots are written only by \<^verbatim>\<open>subdivide\<close>,
  all four at once: the list \<open>children\<close> is empty while the four slots are null and has
  four nodes afterwards.
\<close>

datatype QuadTreeNode =
  QuadTreeNode
    (boundary: Boundary)
    (particles: "nat list")
    (children: "QuadTreeNode list")
    (centerOfMass: Vector2f)
    (totalMass: real)
    (isLeaf: bool)

text \<open>The constructor \<^verbatim>\<open>QuadTreeNode(const Boundary& b)\<close>: an empty leaf of mass 0.\<close>

definition newNode :: "Boundary \<Rightarrow> QuadTreeNode" where
  "newNode b = QuadTreeNode b [] [] (0, 0) 0 True"

section \<open>Building the tree\<close>

text \<open>
  The loop \<^verbatim>\<open>for (auto& child : children) if (child->insert(p)) ...\<close>: the children are
  tried in order and the first one that accepts ends the loop. \<open>ins\<close> is the insertion
  of the particle at hand into one child.
\<close>

fun tryChildren ::
  "(QuadTreeNode \<Rightarrow> (bool \<times> QuadTreeNode) option) \<Rightarrow> QuadTreeNode list
     \<Rightarrow> (bool \<times> QuadTreeNode list) option" where
  "tryChildren ins [] = Some (False, [])"
| "tryChildren ins (c # cs) =
     (case ins c of
        None \<Rightarrow> None
      | Some (ok, c') \<Rightarrow>
          if ok then Some (True, c' # cs)
          else (case tryChildren ins cs of
                  None \<Rightarrow> None
                | Some (ok', cs') \<Rightarrow> Some (ok', c' # cs')))"

text \<open>The redistribution loop of \<^verbatim>\<open>subdivide\<close> over the particles the node held.\<close>

fun redistribute ::
  "(nat \<Rightarrow> QuadTreeNode \<Rightarrow> (bool \<times> QuadTreeNode) option) \<Rightarrow> nat list \<Rightarrow> QuadTreeNode list
     \<Rightarrow> QuadTreeNode list option" where
  "redistribute ins [] cs = Some cs"
| "redistribute ins (p # rest) cs =
     (case tryChildren (ins p) cs of
        None \<Rightarrow> None
      | Some (_, cs') \<Rightarrow> redistribute ins rest cs')"

text \<open>The boundaries of the four children, in the order NE, NW, SE, SW of the source.\<close>

definition childBoundaries_fl :: "(real \<Rightarrow> real) \<Rightarrow> Boundary \<Rightarrow> Boundary list" where
  "childBoundaries_fl fl b =
     (let newHalfSize = fl (halfSize b * 0.5) in
      [\<lparr>center = vadd_fl fl (center b) (newHalfSize, - newHalfSize), halfSize = newHalfSize\<rparr>,
       \<lparr>center = vadd_fl fl (center b) (- newHalfSize, - newHalfSize), halfSize = newHalfSize\<rparr>,
       \<lparr>center = vadd_fl fl (center b) (newHalfSize, newHalfSize), halfSize = newHalfSize\<rparr>,
       \<lparr>center = vadd_fl fl (center b) (- newHalfSize, newHalfSize), halfSize = newHalfSize\<rparr>])"

abbreviation childBoundaries :: "Boundary \<Rightarrow> Boundary list" where
  "childBoundaries \<equiv> childBoundaries_fl (\<lambda>x. x)"

text \<open>
  \<^verbatim>\<open>insert\<close> and \<^verbatim>\<open>subdivide\<close> call each other, and nothing in the source bounds the
  depth of the recursion. The model takes fuel: every call spends one unit, and \<open>None\<close>
  says that the fuel ran out before the call returned. \<open>store\<close> is the particle vector
  the indices point into. The result of the insertion is the returned \<^verbatim>\<open>bool\<close> and the
  node after the call.
\<close>

fun insert_particle_fl ::
  "(real \<Rightarrow> real) \<Rightarrow> nat \<Rightarrow> Particle list \<Rightarrow> QuadTreeNode \<Rightarrow> nat \<Rightarrow> (bool \<times> QuadTreeNode) option"
and subdivide_fl ::
  "(real \<Rightarrow> real) \<Rightarrow> nat \<Rightarrow> Particle list \<Rightarrow> QuadTreeNode \<Rightarrow> QuadTreeNode option" where
  "insert_particle_fl fl 0 store node p = None"
| "insert_particle_fl fl (Suc n) store (QuadTreeNode b parts cs com tm leaf) p =
     (if \<not> contains_fl fl b (position (store ! p))
      then Some (False, QuadTreeNode b parts cs com tm leaf)
      else if leaf then
        (if length parts < MAX_PARTICLES then Some (True, QuadTreeNode b (parts @ [p]) cs com tm leaf)
         else (case subdivide_fl fl n store (QuadTreeNode b parts cs com tm leaf) of
                 None \<Rightarrow> None
               | Some node' \<Rightarrow> insert_particle_fl fl n store node' p))
      else (case tryChildren (\<lambda>c. insert_particle_fl fl n store c p) cs of
              None \<Rightarrow> None
            | Some (ok, cs') \<Rightarrow> Some (ok, QuadTreeNode b parts cs' com tm leaf)))"
| "subdivide_fl fl 0 store node = None"
| "subdivide_fl fl (Suc n) store (QuadTreeNode b parts cs com tm leaf) =
     (case redistribute (\<lambda>p c. insert_particle_fl fl n store c p) parts
             (map newNode (childBoundaries_fl fl b)) of
        None \<Rightarrow> None
      | Some cs' \<Rightarrow> Some (QuadTreeNode b [] cs' com tm False))"

abbreviation insert_particle ::
  "nat \<Rightarrow> Particle list \<Rightarrow> QuadTreeNode \<Rightarrow> nat \<Rightarrow> (bool \<times> QuadTreeNode) option" where
  "insert_particle \<equiv> insert_particle_fl (\<lambda>x. x)"

abbreviation subdivide :: "nat \<Rightarrow> Particle list \<Rightarrow> QuadTreeNode \<Rightarrow> QuadTreeNode option" where
  "subdivide \<equiv> subdivide_fl (\<lambda>x. x)"

text \<open>
  \<^verbatim>\<open>updateCenterOfMass\<close>. It reads the cached \<^verbatim>\<open>totalMass\<close> and \<^verbatim>\<open>centerOfMass\<close> of
  the children and does not call itself on them.
\<close>

definition updateCenterOfMass :: "Particle list \<Rightarrow> QuadTreeNode \<Rightarrow> QuadTreeNode" where
  "updateCenterOfMass store node =
     (if isLeaf node then
        (if particles node = [] then
           QuadTreeNode (boundary node) (particles node) (children node)
             (center (boundary node)) 0 (isLeaf node)
         else
           (let (tm, com) =
                  fold (\<lambda>p (tm, com).
                          (tm + mass (store ! p),
                           vadd com (vmul (position (store ! p)) (mass (store ! p)))))
                       (particles node) (0, (0, 0))
            in QuadTreeNode (boundary node) (particles node) (children node)
                 (vdiv com tm) tm (isLeaf node)))
      else
        (let (tm, com) =
               fold (\<lambda>child (tm, com).
                       if totalMass child > 0
                       then (tm + totalMass child,
                             vadd com (vmul (centerOfMass child) (totalMass child)))
                       else (tm, com))
                    (children node) (0, (0, 0))
         in QuadTreeNode (boundary node) (particles node) (children node)
              (if tm > 0 then vdiv com tm else com) tm (isLeaf node)))"

text \<open>
  The loop of \<^verbatim>\<open>build\<close>: the particles are inserted in the order of the vector and the
  \<^verbatim>\<open>bool\<close> that \<^verbatim>\<open>insert\<close> returns is dropped.
\<close>

fun insertAll_fl ::
  "(real \<Rightarrow> real) \<Rightarrow> nat \<Rightarrow> Particle list \<Rightarrow> nat list \<Rightarrow> QuadTreeNode \<Rightarrow> QuadTreeNode option" where
  "insertAll_fl fl fuel store [] node = Some node"
| "insertAll_fl fl fuel store (p # rest) node =
     (case insert_particle_fl fl fuel store node p of
        None \<Rightarrow> None
      | Some (_, node') \<Rightarrow> insertAll_fl fl fuel store rest node')"

definition build_fl ::
  "(real \<Rightarrow> real) \<Rightarrow> nat \<Rightarrow> Particle list \<Rightarrow> QuadTreeNode \<Rightarrow> QuadTreeNode option" where
  "build_fl fl fuel store node =
     (case insertAll_fl fl fuel store [0..<length store] node of
        None \<Rightarrow> None
      | Some node' \<Rightarrow> Some (updateCenterOfMass store node'))"

abbreviation insertAll ::
  "nat \<Rightarrow> Particle list \<Rightarrow> nat list \<Rightarrow> QuadTreeNode \<Rightarrow> QuadTreeNode option" where
  "insertAll \<equiv> insertAll_fl (\<lambda>x. x)"

abbreviation build :: "nat \<Rightarrow> Particle list \<Rightarrow> QuadTreeNode \<Rightarrow> QuadTreeNode option" where
  "build \<equiv> build_fl (\<lambda>x. x)"

section \<open>Force evaluation\<close>

text \<open>
  The source has no exception and no error return. What it has is undefined behaviour:
  \<^verbatim>\<open>front()\<close> of an empty vector and \<^verbatim>\<open>operator[]\<close> beyond the end of a vector. Both
  are values of the model.
\<close>

datatype error = FrontOfEmpty | OutOfRange

text \<open>
  The softened pairwise term \<^verbatim>\<open>r * (G * m1 * m2 / r3)\<close> with
  \<^verbatim>\<open>r3 = r2 * sqrt(r2)\<close>, which \<^verbatim>\<open>computeForce\<close> writes twice and
  \<^verbatim>\<open>NBodySimulation::computeForces\<close> once.
\<close>

definition pairForce :: "Vector2f \<Rightarrow> real \<Rightarrow> real \<Rightarrow> real \<Rightarrow> real \<Rightarrow> Vector2f" where
  "pairForce r G softening m1 m2 =
     (let r2 = fst r * fst r + snd r * snd r + softening * softening;
          r3 = r2 * sqrt r2
      in vmul r (G * m1 * m2 / r3))"

text \<open>
  \<^verbatim>\<open>computeForce\<close>, for the query particle of index \<open>q\<close>; the accumulator \<open>force\<close> is
  the reference parameter of the source. The guard is evaluated left to right: when
  \<^verbatim>\<open>totalMass == 0\<close> is false, \<^verbatim>\<open>particles.front()\<close> is read before the size is
  looked at. The test \<^verbatim>\<open>s / distance < theta\<close> is written out for \<open>distance = 0\<close>, where
  the \<^verbatim>\<open>float\<close> quotient is an infinity of the sign of \<open>s\<close> or a NaN.
\<close>

fun computeForce ::
  "Particle list \<Rightarrow> QuadTreeNode \<Rightarrow> nat \<Rightarrow> Vector2f \<Rightarrow> real \<Rightarrow> real \<Rightarrow> real \<Rightarrow> error + Vector2f"
and computeForceChildren ::
  "Particle list \<Rightarrow> QuadTreeNode list \<Rightarrow> nat \<Rightarrow> Vector2f \<Rightarrow> real \<Rightarrow> real \<Rightarrow> real \<Rightarrow> error + Vector2f"
where
  "computeForce store (QuadTreeNode b parts cs com tm leaf) q force theta G softening =
     (if tm = 0 then Inr force
      else if parts = [] then Inl FrontOfEmpty
      else if q = hd parts \<and> length parts = 1 then Inr force
      else
        (let r = vsub com (position (store ! q));
             distance = sqrt (fst r * fst r + snd r * snd r + softening * softening)
         in if leaf then
              Inr (fold (\<lambda>p force.
                           if p \<noteq> q
                           then vadd force
                                  (pairForce (vsub (position (store ! p)) (position (store ! q)))
                                     G softening (mass (store ! q)) (mass (store ! p)))
                           else force)
                        parts force)
            else
              (let s = halfSize b * 2.0
               in if (if distance = 0 then s < 0 else s / distance < theta)
                  then Inr (vadd force (pairForce r G softening (mass (store ! q)) tm))
                  else computeForceChildren store cs q force theta G softening)))"
| "computeForceChildren store [] q force theta G softening = Inr force"
| "computeForceChildren store (c # cs) q force theta G softening =
     (case computeForce store c q force theta G softening of
        Inl e \<Rightarrow> Inl e
      | Inr force' \<Rightarrow> computeForceChildren store cs q force' theta G softening)"

text \<open>
  The bounding box and the root boundary of
  \<^verbatim>\<open>BarnesHutForceCalculator::computeForces\<close>, which runs this part only on a non-empty
  vector. The minima and maxima of the bounding box are exact in every rounding; the
  centre \<^verbatim>\<open>(min + max) * 0.5f\<close> and the half-size
  \<^verbatim>\<open>std::max(max.x - min.x, max.y - min.y) * 0.6f\<close> are rounded at every operation.
\<close>

definition findBounds :: "Particle list \<Rightarrow> Vector2f \<times> Vector2f" where
  "findBounds ps =
     fold (\<lambda>p (mn, mx).
             ((min (fst mn) (fst (position p)), min (snd mn) (snd (position p))),
              (max (fst mx) (fst (position p)), max (snd mx) (snd (position p)))))
          ps (position (hd ps), position (hd ps))"

text \<open>The value of the literal \<^verbatim>\<open>0.6f\<close>, the binary32 number nearest to 0.6.\<close>

definition float_0_6 :: real where
  "float_0_6 = 5033165 / 8388608"

definition rootBoundary_fl :: "(real \<Rightarrow> real) \<Rightarrow> Particle list \<Rightarrow> Boundary" where
  "rootBoundary_fl fl ps =
     (let (mn, mx) = findBounds ps;
          c = vmul_fl fl (vadd_fl fl mn mx) 0.5;
          size = fl (max (fl (fst mx - fst mn)) (fl (snd mx - snd mn)) * float_0_6)
      in \<lparr>center = c, halfSize = size\<rparr>)"

abbreviation rootBoundary :: "Particle list \<Rightarrow> Boundary" where
  "rootBoundary \<equiv> rootBoundary_fl (\<lambda>x. x)"

text \<open>The force loop: one traversal of the tree for each index, from a zero force.\<close>

fun forceLoop ::
  "Particle list \<Rightarrow> QuadTreeNode \<Rightarrow> nat list \<Rightarrow> real \<Rightarrow> real \<Rightarrow> real \<Rightarrow> error + Vector2f list" where
  "forceLoop store rootNode [] theta G softening = Inr []"
| "forceLoop store rootNode (i # rest) theta G softening =
     (case computeForce store rootNode i (0, 0) theta G softening of
        Inl e \<Rightarrow> Inl e
      | Inr f \<Rightarrow>
          (case forceLoop store rootNode rest theta G softening of
             Inl e \<Rightarrow> Inl e
           | Inr fs \<Rightarrow> Inr (f # fs)))"

text \<open>
  \<^verbatim>\<open>BarnesHutForceCalculator::computeForces\<close>; \<open>theta\<close> is the member of the
  calculator. \<open>None\<close>: the fuel ran out while the tree was built.
\<close>

definition computeForces_fl ::
  "(real \<Rightarrow> real) \<Rightarrow> nat \<Rightarrow> real \<Rightarrow> Particle list \<Rightarrow> real \<Rightarrow> real
     \<Rightarrow> (error + Vector2f list) option" where
  "computeForces_fl fl fuel theta ps G softening =
     (if ps = [] then Some (Inr [])
      else
        (case build_fl fl fuel ps (newNode (rootBoundary_fl fl ps)) of
           None \<Rightarrow> None
         | Some rootNode \<Rightarrow> Some (forceLoop ps rootNode [0..<length ps] theta G softening)))"

abbreviation computeForces ::
  "nat \<Rightarrow> real \<Rightarrow> Particle list \<Rightarrow> real \<Rightarrow> real \<Rightarrow> (error + Vector2f list) option" where
  "computeForces \<equiv> computeForces_fl (\<lambda>x. x)"

text \<open>
  \<^verbatim>\<open>NBodySimulation::computeForces\<close> of main.cpp, the all-pairs sum; \<open>G\<close> and
  \<open>SOFTENING\<close> are the fields of \<^verbatim>\<open>constants\<close>.
\<close>

definition NBody_computeForces :: "real \<Rightarrow> real \<Rightarrow> Particle list \<Rightarrow> Vector2f list" where
  "NBody_computeForces G SOFTENING ps =
     map (\<lambda>i. fold (\<lambda>j force.
                       if i \<noteq> j
                       then vadd force
                              (pairForce (vsub (position (ps ! j)) (position (ps ! i)))
                                 G SOFTENING (mass (ps ! i)) (mass (ps ! j)))
                       else force)
                    [0..<length ps] (0, 0))
         [0..<length ps]"

section \<open>The Runge-Kutta integrator\<close>

record State =
  positions :: "Vector2f list"
  velocities :: "Vector2f list"

record Derivative =
  dpos :: "Vector2f list"
  dvel :: "Vector2f list"

text \<open>
  The first loop of \<^verbatim>\<open>evaluate\<close>, over the indices of \<^verbatim>\<open>initial.positions\<close>: it
  writes the displaced state and the temporary particles. An index beyond the end of a
  vector it reads or writes is \<open>OutOfRange\<close>.
\<close>

fun displaceLoop ::
  "State \<Rightarrow> real \<Rightarrow> Derivative \<Rightarrow> nat list \<Rightarrow> State \<times> Particle list
     \<Rightarrow> error + State \<times> Particle list" where
  "displaceLoop initial dt d [] acc = Inr acc"
| "displaceLoop initial dt d (i # rest) (state, temp) =
     (if i < length (dpos d) \<and> i < length (dvel d) \<and> i < length (velocities initial)
         \<and> i < length (positions state) \<and> i < length (velocities state) \<and> i < length temp
      then
        (let pos' = vadd (positions initial ! i) (vmul (dpos d ! i) dt);
             vel' = vadd (velocities initial ! i) (vmul (dvel d ! i) dt)
         in displaceLoop initial dt d rest
              (state\<lparr>positions := (positions state)[i := pos'],
                     velocities := (velocities state)[i := vel']\<rparr>,
               temp[i := (temp ! i)\<lparr>position := pos', velocity := vel'\<rparr>]))
      else Inl OutOfRange)"

text \<open>The second loop of \<^verbatim>\<open>evaluate\<close>, over the indices of \<^verbatim>\<open>forces\<close>.\<close>

fun accelLoop :: "Vector2f list \<Rightarrow> Particle list \<Rightarrow> nat list \<Rightarrow> Vector2f list \<Rightarrow> error + Vector2f list" where
  "accelLoop forces temp [] out = Inr out"
| "accelLoop forces temp (i # rest) out =
     (if i < length temp \<and> i < length out
      then accelLoop forces temp rest (out[i := vdiv (forces ! i) (mass (temp ! i))])
      else Inl OutOfRange)"

text \<open>
  The first half of \<^verbatim>\<open>evaluate\<close>: the displaced state and \<^verbatim>\<open>tempParticles\<close>, the
  copy of the particles that is handed to the force function.
\<close>

definition displace ::
  "State \<Rightarrow> real \<Rightarrow> Derivative \<Rightarrow> Particle list \<Rightarrow> error + State \<times> Particle list" where
  "displace initial dt d ps =
     displaceLoop initial dt d [0..<length (positions initial)]
       (\<lparr>positions = replicate (length (positions initial)) (0, 0),
         velocities = replicate (length (velocities initial)) (0, 0)\<rparr>, ps)"

text \<open>
  \<^verbatim>\<open>evaluate\<close>. The particles come in by reference to const and nothing but the
  derivative goes out.
\<close>

definition evaluate ::
  "State \<Rightarrow> real \<Rightarrow> Derivative \<Rightarrow> (Particle list \<Rightarrow> Vector2f list) \<Rightarrow> Particle list
     \<Rightarrow> error + Derivative" where
  "evaluate initial dt d forceFunc ps =
     (case displace initial dt d ps of
        Inl e \<Rightarrow> Inl e
      | Inr (state, tempParticles) \<Rightarrow>
          (let forces = forceFunc tempParticles
           in case accelLoop forces tempParticles [0..<length forces]
                     (replicate (length forces) (0, 0)) of
                Inl e \<Rightarrow> Inl e
              | Inr acc \<Rightarrow> Inr \<lparr>dpos = velocities state, dvel = acc\<rparr>))"

text \<open>The update loop of \<^verbatim>\<open>integrate\<close>.\<close>

definition rk4 :: "Vector2f \<Rightarrow> Vector2f \<Rightarrow> Vector2f \<Rightarrow> Vector2f \<Rightarrow> Vector2f" where
  "rk4 a b c d = vdiv (vadd (vadd (vadd a (vmul b 2.0)) (vmul c 2.0)) d) 6.0"

fun updateLoop ::
  "Derivative \<Rightarrow> Derivative \<Rightarrow> Derivative \<Rightarrow> Derivative \<Rightarrow> real \<Rightarrow> nat list \<Rightarrow> Particle list
     \<Rightarrow> error + Particle list" where
  "updateLoop k1 k2 k3 k4 dt [] ps = Inr ps"
| "updateLoop k1 k2 k3 k4 dt (i # rest) ps =
     (if \<not> fixed (ps ! i) then
        (if i < length (dpos k1) \<and> i < length (dpos k2) \<and> i < length (dpos k3) \<and> i < length (dpos k4)
            \<and> i < length (dvel k1) \<and> i < length (dvel k2) \<and> i < length (dvel k3) \<and> i < length (dvel k4)
         then
           (let dxdt = rk4 (dpos k1 ! i) (dpos k2 ! i) (dpos k3 ! i) (dpos k4 ! i);
                dvdt = rk4 (dvel k1 ! i) (dvel k2 ! i) (dvel k3 ! i) (dvel k4 ! i)
            in updateLoop k1 k2 k3 k4 dt rest
                 (ps[i := (ps ! i)\<lparr>position := vadd (position (ps ! i)) (vmul dxdt dt),
                                  velocity := vadd (velocity (ps ! i)) (vmul dvdt dt),
                                  acceleration := dvdt\<rparr>]))
         else Inl OutOfRange)
      else updateLoop k1 k2 k3 k4 dt rest ps)"

text \<open>The state that \<^verbatim>\<open>integrate\<close> reads off the particles before the first stage.\<close>

definition initialState :: "Particle list \<Rightarrow> State" where
  "initialState ps = \<lparr>positions = map position ps, velocities = map velocity ps\<rparr>"

text \<open>
  \<^verbatim>\<open>RungeKuttaIntegrator::integrate\<close>: the particle vector goes in and the updated vector
  comes out.
\<close>

definition integrate ::
  "Particle list \<Rightarrow> (Particle list \<Rightarrow> Vector2f list) \<Rightarrow> real \<Rightarrow> error + Particle list" where
  "integrate ps forceFunc dt =
     (let initial = initialState ps;
          k0 = \<lparr>dpos = replicate (length ps) (0, 0), dvel = replicate (length ps) (0, 0)\<rparr>
      in case evaluate initial 0.0 k0 forceFunc ps of
           Inl e \<Rightarrow> Inl e
         | Inr k1 \<Rightarrow>
        (case evaluate initial (dt * 0.5) k1 forceFunc ps of
           Inl e \<Rightarrow> Inl e
         | Inr k2 \<Rightarrow>
        (case evaluate initial (dt * 0.5) k2 forceFunc ps of
           Inl e \<Rightarrow> Inl e
         | Inr k3 \<Rightarrow>
        (case evaluate initial dt k3 forceFunc ps of
           Inl e \<Rightarrow> Inl e
         | Inr k4 \<Rightarrow> updateLoop k1 k2 k3 k4 dt [0..<length ps] ps))))"

section \<open>The Runge-Kutta step in the words of the specification\<close>

text \<open>
  The specification describes a stage as a force evaluation against a hypothetical
  snapshot, the particles with positions and velocities displaced by a multiple \<open>h\<close> of
  the previous stage's derivative, and the derivative as (velocity, force / mass).
\<close>

definition spec_displace :: "Particle list \<Rightarrow> Derivative \<Rightarrow> real \<Rightarrow> Particle list" where
  "spec_displace ps k h =
     map (\<lambda>(p, dx, dv). p\<lparr>position := vadd (position p) (vmul dx h),
                            velocity := vadd (velocity p) (vmul dv h)\<rparr>)
         (zip ps (zip (dpos k) (dvel k)))"

definition spec_derivative :: "(Particle list \<Rightarrow> Vector2f list) \<Rightarrow> Particle list \<Rightarrow> Derivative" where
  "spec_derivative forceFunc snapshot =
     \<lparr>dpos = map velocity snapshot,
      dvel = map (\<lambda>(F, p). vdiv F (mass p)) (zip (forceFunc snapshot) snapshot)\<rparr>"

definition spec_k1 :: "(Particle list \<Rightarrow> Vector2f list) \<Rightarrow> Particle list \<Rightarrow> real \<Rightarrow> Derivative" where
  "spec_k1 forceFunc ps dt = spec_derivative forceFunc ps"

definition spec_k2 :: "(Particle list \<Rightarrow> Vector2f list) \<Rightarrow> Particle list \<Rightarrow> real \<Rightarrow> Derivative" where
  "spec_k2 forceFunc ps dt =
     spec_derivative forceFunc (spec_displace ps (spec_k1 forceFunc ps dt) (dt / 2))"

definition spec_k3 :: "(Particle list \<Rightarrow> Vector2f list) \<Rightarrow> Particle list \<Rightarrow> real \<Rightarrow> Derivative" where
  "spec_k3 forceFunc ps dt =
     spec_derivative forceFunc (spec_displace ps (spec_k2 forceFunc ps dt) (dt / 2))"

definition spec_k4 :: "(Particle list \<Rightarrow> Vector2f list) \<Rightarrow> Particle list \<Rightarrow> real \<Rightarrow> Derivative" where
  "spec_k4 forceFunc ps dt =
     spec_derivative forceFunc (spec_displace ps (spec_k3 forceFunc ps dt) dt)"

text \<open>The weighted average \<open>(k1 + 2 k2 + 2 k3 + k4) / 6\<close> of one component of the four stages.\<close>

definition spec_average ::
  "(Derivative \<Rightarrow> Vector2f list) \<Rightarrow> (Particle list \<Rightarrow> Vector2f list) \<Rightarrow> Particle list \<Rightarrow> real \<Rightarrow> nat
     \<Rightarrow> Vector2f" where
  "spec_average component forceFunc ps dt i =
     vdiv (vadd (vadd (vadd (component (spec_k1 forceFunc ps dt) ! i)
                            (vmul (component (spec_k2 forceFunc ps dt) ! i) 2))
                      (vmul (component (spec_k3 forceFunc ps dt) ! i) 2))
                (component (spec_k4 forceFunc ps dt) ! i))
          6"

text \<open>
  The four snapshots that the specification has the force function evaluated against:
  the particles as they are, and the particles displaced by \<open>dt / 2\<close> times the first
  stage, \<open>dt / 2\<close> times the second and \<open>dt\<close> times the third.
\<close>

definition spec_snapshots ::
  "(Particle list \<Rightarrow> Vector2f list) \<Rightarrow> Particle list \<Rightarrow> real \<Rightarrow> Particle list list" where
  "spec_snapshots forceFunc ps dt =
     [ps,
      spec_displace ps (spec_k1 forceFunc ps dt) (dt / 2),
      spec_displace ps (spec_k2 forceFunc ps dt) (dt / 2),
      spec_displace ps (spec_k3 forceFunc ps dt) dt]"

section \<open>Auxiliary notions and sample inputs\<close>

text \<open>The fields of a node that no insertion writes.\<close>

definition cached :: "QuadTreeNode \<Rightarrow> Boundary \<times> Vector2f \<times> real" where
  "cached t = (boundary t, centerOfMass t, totalMass t)"

text \<open>A free particle at rest, and two unit masses one unit apart.\<close>

definition body :: "real \<Rightarrow> real \<Rightarrow> real \<Rightarrow> Particle" where
  "body px py m =
     \<lparr>position = (px, py), velocity = (0, 0), acceleration = (0, 0), mass = m, fixed = False\<rparr>"

definition twoBodies :: "Particle list" where
  "twoBodies = [body 0 0 1, body 1 0 1]"

text \<open>
  The tree that \<open>build\<close> makes of \<open>twoBodies\<close> (lemma \<open>build_twoBodies\<close>). Every number
  in it is a binary32 number, and so is every bound that the box tests compute on the
  way: on this input the exact arithmetic is the arithmetic of the code.
\<close>

definition twoBodiesTree :: QuadTreeNode where
  "twoBodiesTree =
     QuadTreeNode \<lparr>center = (1 / 2, 0), halfSize = 5033165 / 8388608\<rparr> []
       [QuadTreeNode \<lparr>center = (13421773 / 16777216, - (5033165 / 16777216)),
                      halfSize = 5033165 / 16777216\<rparr> [1] [] (0, 0) 0 True,
        QuadTreeNode \<lparr>center = (3355443 / 16777216, - (5033165 / 16777216)),
                      halfSize = 5033165 / 16777216\<rparr> [0] [] (0, 0) 0 True,
        QuadTreeNode \<lparr>center = (13421773 / 16777216, 5033165 / 16777216),
                      halfSize = 5033165 / 16777216\<rparr> [] [] (0, 0) 0 True,
        QuadTreeNode \<lparr>center = (3355443 / 16777216, 5033165 / 16777216),
                      halfSize = 5033165 / 16777216\<rparr> [] [] (0, 0) 0 True]
       (0, 0) 0 False"

text \<open>
  The root after \<open>build\<close> on the first of the two bodies alone, and the root after the
  second body has then been inserted: the same tree as \<open>twoBodiesTree\<close>, with the mass
  1 that \<open>build\<close> had cached in the root.
\<close>

definition firstLeaf :: QuadTreeNode where
  "firstLeaf =
     QuadTreeNode \<lparr>center = (1 / 2, 0), halfSize = 5033165 / 8388608\<rparr> [0] [] (0, 0) 1 True"

definition lateTree :: QuadTreeNode where
  "lateTree =
     QuadTreeNode (boundary twoBodiesTree) [] (children twoBodiesTree) (0, 0) 1 False"

text \<open>A leaf that holds the particle of index 0 and has been given its mass.\<close>

definition soleLeaf :: QuadTreeNode where
  "soleLeaf = QuadTreeNode \<lparr>center = (0, 0), halfSize = 0\<rparr> [0] [] (0, 0) 1 True"

text \<open>A force function that pulls every particle with the force \<open>(1, 0)\<close>.\<close>

definition unitForce :: "Particle list \<Rightarrow> Vector2f list" where
  "unitForce qs = map (\<lambda>p. (1, 0)) qs"

text \<open>A particle of negative mass.\<close>

definition negativeBody :: Particle where
  "negativeBody = body 0 0 (- 1)"

text \<open>
  A force function by which every fixed particle pulls every particle, with its mass
  times the displacement to it.
\<close>

definition anchorPull :: "Particle list \<Rightarrow> Vector2f list" where
  "anchorPull qs =
     map (\<lambda>p. foldr (\<lambda>q F. if fixed q
                              then vadd F (vmul (vsub (position q) (position p)) (mass q))
                              else F)
                  qs (0, 0))
         qs"

text \<open>
  A fixed mass of 2 that carries a velocity, and a free mass of 1; and the two after
  one step of size 1 under \<open>anchorPull\<close> (lemma \<open>integrate_anchoredPair\<close>).
\<close>

definition anchoredPair :: "Particle list" where
  "anchoredPair = [(body 0 0 2)\<lparr>velocity := (1, 0), fixed := True\<rparr>, body 1 0 1]"

definition anchoredPairAfter :: "Particle list" where
  "anchoredPairAfter =
     [(body 0 0 2)\<lparr>velocity := (1, 0), fixed := True\<rparr>,
      \<lparr>position = (1 / 2, 0), velocity = (- (1 / 2), 0), acceleration = (- (1 / 2), 0),
       mass = 1, fixed = False\<rparr>]"

text \<open>The particles that a subtree holds.\<close>

fun stored :: "QuadTreeNode \<Rightarrow> nat set" where
  "stored (QuadTreeNode b parts cs com tm leaf) = set parts \<union> (\<Union>c\<in>set cs. stored c)"

text \<open>The leaves of a tree, from left to right.\<close>

fun leaves :: "QuadTreeNode \<Rightarrow> QuadTreeNode list" where
  "leaves (QuadTreeNode b parts cs com tm leaf) =
     (if leaf then [QuadTreeNode b parts cs com tm leaf] else concat (map leaves cs))"

text \<open>
  The half-size that \<^verbatim>\<open>subdivide\<close> gives the children of a node of half-size \<open>h\<close>:
  \<^verbatim>\<open>boundary.halfSize * 0.5f\<close>, rounded. In binary32 the product is exact down to the
  subnormal numbers, it is smaller than \<open>h\<close> for every positive \<open>h\<close>, and half of the
  smallest positive number rounds to 0: halving a half-size again and again reaches 0.
\<close>

definition halve :: "(real \<Rightarrow> real) \<Rightarrow> real \<Rightarrow> real" where
  "halve fl h = fl (h * 0.5)"

text \<open>
  A half-size is separating when no box of this half-size, wherever its centre, passes
  the box test for two particles of the vector.
\<close>

definition separating :: "(real \<Rightarrow> real) \<Rightarrow> Particle list \<Rightarrow> real \<Rightarrow> bool" where
  "separating fl store h \<longleftrightarrow>
     (\<forall>c. \<forall>i<length store. \<forall>j<length store. i \<noteq> j \<longrightarrow>
        \<not> (contains_fl fl \<lparr>center = c, halfSize = h\<rparr> (position (store ! i)) \<and>
           contains_fl fl \<lparr>center = c, halfSize = h\<rparr> (position (store ! j))))"

text \<open>
  The shape that insertion keeps, with a budget \<open>k\<close> of further subdivisions: after \<open>k\<close>
  more halvings the half-size of the node is separating; a leaf has no children and at
  most one particle, which passes its box test; a node that is not a leaf has budget
  left, holds no particle itself and has four children with the boundaries of its
  quadrants, of the same shape with one subdivision less.
\<close>

fun regular :: "(real \<Rightarrow> real) \<Rightarrow> Particle list \<Rightarrow> nat \<Rightarrow> QuadTreeNode \<Rightarrow> bool" where
  "regular fl store k (QuadTreeNode b parts cs com tm leaf) \<longleftrightarrow>
     separating fl store ((halve fl ^^ k) (halfSize b)) \<and>
     (if leaf
      then cs = [] \<and> length parts \<le> 1 \<and>
           (\<forall>p\<in>set parts. p < length store \<and> contains_fl fl b (position (store ! p)))
      else parts = [] \<and> 0 < k \<and> map boundary cs = childBoundaries_fl fl b \<and>
           (\<forall>c\<in>set cs. regular fl store (k - 1) c))"

text \<open>Two points are \<open>gap\<close> apart when they differ by \<open>gap\<close> or more in a coordinate.\<close>

definition apart :: "real \<Rightarrow> Vector2f \<Rightarrow> Vector2f \<Rightarrow> bool" where
  "apart gap u v \<longleftrightarrow> gap \<le> \<bar>fst u - fst v\<bar> \<or> gap \<le> \<bar>snd u - snd v\<bar>"

text \<open>
  Two particles one binary32 step apart at 1; the root leaf that holds the first of them
  in the root boundary that binary32 computes for the two; and the tree that \<open>build\<close>
  makes of the two in binary32 (lemma \<open>build_closePair\<close>).
\<close>

definition closePair :: "Particle list" where
  "closePair = [body 1 0 1, body (8388609 / 8388608) 0 1]"

definition closeLeaf :: QuadTreeNode where
  "closeLeaf =
     QuadTreeNode \<lparr>center = (1, 0), halfSize = 5033165 / 70368744177664\<rparr> [0] [] (0, 0) 0 True"

definition closeTree :: QuadTreeNode where
  "closeTree =
     QuadTreeNode \<lparr>center = (1, 0), halfSize = 5033165 / 70368744177664\<rparr> []
       [QuadTreeNode \<lparr>center = (1, - (5033165 / 140737488355328)),
                      halfSize = 5033165 / 140737488355328\<rparr> [0] [] (0, 0) 0 True,
        QuadTreeNode \<lparr>center = (16777215 / 16777216, - (5033165 / 140737488355328)),
                      halfSize = 5033165 / 140737488355328\<rparr> [] [] (0, 0) 0 True,
        QuadTreeNode \<lparr>center = (1, 5033165 / 140737488355328),
                      halfSize = 5033165 / 140737488355328\<rparr> [] [] (0, 0) 0 True,
        QuadTreeNode \<lparr>center = (16777215 / 16777216, 5033165 / 140737488355328),
                      halfSize = 5033165 / 140737488355328\<rparr> [] [] (0, 0) 0 True]
       (0, 0) 0 False"

text \<open>
  Two particles at the same place, and the leaf that holds the first of them in the root
  boundary of the two, which has half-size 0.
\<close>

definition twins :: "Particle list" where
  "twins = [body 0 0 1, body 0 0 1]"

definition twinLeaf :: QuadTreeNode where
  "twinLeaf = QuadTreeNode \<lparr>center = (0, 0), halfSize = 0\<rparr> [0] [] (0, 0) 0 True"

section \<open>Evaluation on the sample inputs\<close>

lemmas eval_defs =
  build_fl_def computeForces_fl_def rootBoundary_fl_def findBounds_def newNode_def contains_fl_def
  vadd_def vsub_def vmul_def vdiv_def vadd_fl_def vmul_fl_def float_0_6_def MAX_PARTICLES_def
  childBoundaries_fl_def updateCenterOfMass_def Let_def body_def upt_rec

lemma rootBoundary_twoBodies:
  "rootBoundary twoBodies = \<lparr>center = (1 / 2, 0), halfSize = 5033165 / 8388608\<rparr>"
  by (simp add: twoBodies_def eval_defs)

lemma build_twoBodies:
  "build 3 twoBodies (newNode (rootBoundary twoBodies)) = Some twoBodiesTree"
  unfolding rootBoundary_twoBodies
  by (simp add: twoBodies_def twoBodiesTree_def eval_defs numeral_3_eq_3)

lemma build_firstLeaf:
  "build 1 [body 0 0 1] (newNode (rootBoundary twoBodies)) = Some firstLeaf"
  unfolding rootBoundary_twoBodies
  by (simp add: firstLeaf_def eval_defs)

lemma insert_lateTree:
  "insert_particle 3 twoBodies firstLeaf 1 = Some (True, lateTree)"
  by (simp add: twoBodies_def twoBodiesTree_def firstLeaf_def lateTree_def eval_defs numeral_3_eq_3)

section \<open>Binary32 rounding\<close>

text \<open>The value of \<open>float_round\<close> at a real whose binary exponent is known.\<close>

lemma floor_log2_eq:
  fixes x :: real
  assumes "2 powi e \<le> x" and "x < 2 powi (e + 1)"
  shows "\<lfloor>log 2 x\<rfloor> = e"
proof -
  have "(0::real) < 2 powi e" by (rule zero_less_power_int) simp
  with assms(1) have p: "0 < x" by linarith
  have "real_of_int e \<le> log 2 x"
    using assms(1) p by (simp add: le_log_iff powr_real_of_int')
  moreover have "log 2 x < real_of_int (e + 1)"
    using assms(2) p powr_real_of_int' [of 2 "e + 1"] by (simp add: log_less_iff)
  ultimately show ?thesis by (simp add: floor_eq_iff)
qed

lemma float_round_eval:
  assumes "2 powi e \<le> \<bar>x\<bar>" and "\<bar>x\<bar> < 2 powi (e + 1)" and "- 126 \<le> e"
  shows "float_round x = of_int (roundeven (x / 2 powi (e - 23))) * 2 powi (e - 23)"
proof -
  have "(0::real) < 2 powi e" by (rule zero_less_power_int) simp
  with assms(1) have "0 < \<bar>x\<bar>" by linarith
  then have "x \<noteq> 0" by simp
  moreover have "\<lfloor>log 2 \<bar>x\<bar>\<rfloor> = e" using assms(1,2) by (rule floor_log2_eq)
  ultimately show ?thesis using assms(3) by (simp add: float_round_def float_quantum_def max_def)
qed

lemma float_round_0: "float_round (- (5033165 / 8388608)) = - (5033165 / 8388608)"
  by (subst float_round_eval [where e = "- 1"])
     (simp_all add: roundeven_def power_int_def Let_def power_one_over)

lemma float_round_1: "float_round (- (5033165 / 16777216)) = - (5033165 / 16777216)"
  by (subst float_round_eval [where e = "- 2"])
     (simp_all add: roundeven_def power_int_def Let_def power_one_over)

lemma float_round_2: "float_round (- (838861 / 8388608)) = - (838861 / 8388608)"
  by (subst float_round_eval [where e = "- 4"])
     (simp_all add: roundeven_def power_int_def Let_def power_one_over)

lemma float_round_3: "float_round (- (5033165 / 70368744177664)) = - (5033165 / 70368744177664)"
  by (subst float_round_eval [where e = "- 24"])
     (simp_all add: roundeven_def power_int_def Let_def power_one_over)

lemma float_round_4: "float_round (- (5033165 / 140737488355328)) = - (5033165 / 140737488355328)"
  by (subst float_round_eval [where e = "- 25"])
     (simp_all add: roundeven_def power_int_def Let_def power_one_over)

lemma float_round_5: "float_round (5033165 / 140737488355328) = 5033165 / 140737488355328"
  by (subst float_round_eval [where e = "- 25"])
     (simp_all add: roundeven_def power_int_def Let_def power_one_over)

lemma float_round_6: "float_round (5033165 / 70368744177664) = 5033165 / 70368744177664"
  by (subst float_round_eval [where e = "- 24"])
     (simp_all add: roundeven_def power_int_def Let_def power_one_over)

lemma float_round_7: "float_round (1 / 8388608) = 1 / 8388608"
  by (subst float_round_eval [where e = "- 23"])
     (simp_all add: roundeven_def power_int_def Let_def power_one_over)

lemma float_round_8: "float_round (3355443 / 16777216) = 3355443 / 16777216"
  by (subst float_round_eval [where e = "- 3"])
     (simp_all add: roundeven_def power_int_def Let_def power_one_over)

lemma float_round_9: "float_round (5033165 / 16777216) = 5033165 / 16777216"
  by (subst float_round_eval [where e = "- 2"])
     (simp_all add: roundeven_def power_int_def Let_def power_one_over)

lemma float_round_10: "float_round (1 / 2) = 1 / 2"
  by (subst float_round_eval [where e = "- 1"])
     (simp_all add: roundeven_def power_int_def Let_def power_one_over)

lemma float_round_11: "float_round (3 / 5) = 5033165 / 8388608"
  by (subst float_round_eval [where e = "- 1"])
     (simp_all add: roundeven_def power_int_def Let_def power_one_over)

lemma float_round_12: "float_round (5033165 / 8388608) = 5033165 / 8388608"
  by (subst float_round_eval [where e = "- 1"])
     (simp_all add: roundeven_def power_int_def Let_def power_one_over)

lemma float_round_13: "float_round (13421773 / 16777216) = 13421773 / 16777216"
  by (subst float_round_eval [where e = "- 1"])
     (simp_all add: roundeven_def power_int_def Let_def power_one_over)

lemma float_round_14: "float_round (140737474933555 / 140737488355328) = 8388607 / 8388608"
  by (subst float_round_eval [where e = "- 1"])
     (simp_all add: roundeven_def power_int_def Let_def power_one_over)

lemma float_round_15: "float_round (70368739144499 / 70368744177664) = 16777215 / 16777216"
  by (subst float_round_eval [where e = "- 1"])
     (simp_all add: roundeven_def power_int_def Let_def power_one_over)

lemma float_round_16: "float_round (140737483322163 / 140737488355328) = 16777215 / 16777216"
  by (subst float_round_eval [where e = "- 1"])
     (simp_all add: roundeven_def power_int_def Let_def power_one_over)

lemma float_round_17: "float_round (140737484999885 / 140737488355328) = 1"
  by (subst float_round_eval [where e = "- 1"])
     (simp_all add: roundeven_def power_int_def Let_def power_one_over)

lemma float_round_18: "float_round (1) = 1"
  by (subst float_round_eval [where e = "0"])
     (simp_all add: roundeven_def power_int_def Let_def power_one_over)

lemma float_round_19: "float_round (140737493388493 / 140737488355328) = 1"
  by (subst float_round_eval [where e = "0"])
     (simp_all add: roundeven_def power_int_def Let_def power_one_over)

lemma float_round_20: "float_round (70368749210829 / 70368744177664) = 8388609 / 8388608"
  by (subst float_round_eval [where e = "0"])
     (simp_all add: roundeven_def power_int_def Let_def power_one_over)

lemma float_round_21: "float_round (9227469 / 8388608) = 9227469 / 8388608"
  by (subst float_round_eval [where e = "0"])
     (simp_all add: roundeven_def power_int_def Let_def power_one_over)

lemma float_round_22: "float_round (16777217 / 8388608) = 2"
  by (subst float_round_eval [where e = "1"])
     (simp_all add: roundeven_def power_int_def Let_def power_one_over)

lemmas float_round_values =
  float_round_0 float_round_1 float_round_2 float_round_3 float_round_4 float_round_5 float_round_6 float_round_7 float_round_8 float_round_9 float_round_10 float_round_11 float_round_12 float_round_13 float_round_14 float_round_15 float_round_16 float_round_17 float_round_18 float_round_19 float_round_20 float_round_21 float_round_22

lemma float_round_zero: "float_round 0 = 0"
  by (simp add: float_round_def)

text \<open>
  On the two unit masses binary32 rounds nothing: the root boundary and the tree are
  those of the exact arithmetic.
\<close>

lemma float_0_6_nearest: "float_round (6 / 10) = float_0_6"
  by (simp add: float_round_values float_0_6_def)

lemma rootBoundary_twoBodies_binary32:
  "rootBoundary_fl float_round twoBodies = rootBoundary twoBodies"
  by (simp add: rootBoundary_fl_def findBounds_def twoBodies_def body_def vadd_fl_def vmul_fl_def
      float_0_6_def float_round_zero float_round_values)

lemma build_twoBodies_binary32:
  "build_fl float_round 3 twoBodies (newNode (rootBoundary_fl float_round twoBodies))
     = Some twoBodiesTree"
  unfolding rootBoundary_twoBodies_binary32 rootBoundary_twoBodies
  by (simp add: twoBodies_def twoBodiesTree_def eval_defs numeral_3_eq_3 float_round_zero
      float_round_values)

lemma contains_twoBodies_binary32:
  "contains_fl float_round (rootBoundary_fl float_round twoBodies) (position (twoBodies ! 0))"
  "contains_fl float_round (rootBoundary_fl float_round twoBodies) (position (twoBodies ! 1))"
  unfolding rootBoundary_twoBodies_binary32 rootBoundary_twoBodies
  by (simp_all add: twoBodies_def body_def contains_fl_def float_round_values)

lemma twoBodies_forces_binary32:
  "computeForces_fl float_round 3 theta twoBodies 1 0 = Some (Inr [(0, 0), (0, 0)])"
proof -
  have "forceLoop twoBodies twoBodiesTree [0..<length twoBodies] theta 1 0 = Inr [(0, 0), (0, 0)]"
    by (simp add: twoBodies_def twoBodiesTree_def upt_rec)
  then show ?thesis
    by (simp add: computeForces_fl_def build_twoBodies_binary32) (simp add: twoBodies_def)
qed

text \<open>Halving in binary32 reaches 0 from every value, by underflow.\<close>

lemma float_least_pos: "0 < float_least"
  unfolding float_least_def by (rule zero_less_power_int) simp

lemma roundeven_near: "\<bar>of_int (roundeven y) - y\<bar> \<le> 1 / 2"
  unfolding roundeven_def Let_def by (auto simp: abs_if) linarith+

lemma roundeven_half: "roundeven (1 / 2) = 0" "roundeven (- (1 / 2)) = 0"
  by (simp_all add: roundeven_def Let_def)

lemma float_quantum_pos: "0 < float_quantum x"
  unfolding float_quantum_def by (rule zero_less_power_int) simp

lemma funpow_Suc_apply: "(f ^^ Suc n) x = (f ^^ n) (f x)"
  by (simp only: funpow_Suc_right comp_apply)

lemma float_quantum_cases:
  "float_quantum x = float_least \<or>
   (- 126 \<le> \<lfloor>log 2 \<bar>x\<bar>\<rfloor> \<and> float_quantum x = 2 powi (\<lfloor>log 2 \<bar>x\<bar>\<rfloor> - 23))"
proof (cases "- 126 \<le> \<lfloor>log 2 \<bar>x\<bar>\<rfloor>")
  case True
  then have "max \<lfloor>log 2 \<bar>x\<bar>\<rfloor> (- 126) = \<lfloor>log 2 \<bar>x\<bar>\<rfloor>" by (rule max_absorb1)
  then have "float_quantum x = 2 powi (\<lfloor>log 2 \<bar>x\<bar>\<rfloor> - 23)"
    by (simp only: float_quantum_def)
  with True show ?thesis by blast
next
  case False
  then have "max \<lfloor>log 2 \<bar>x\<bar>\<rfloor> (- 126) = - 126" by (intro max_absorb2) linarith
  moreover have "(- 126 :: int) - 23 = - 149" by simp
  ultimately have "float_quantum x = float_least"
    by (simp only: float_quantum_def float_least_def)
  then show ?thesis ..
qed

lemma float_quantum_grid: "\<exists>n::nat. float_quantum x = 2 ^ n * float_least"
proof -
  from float_quantum_cases [of x] show ?thesis
  proof
    assume "float_quantum x = float_least"
    then have "float_quantum x = 2 ^ 0 * float_least" by simp
    then show ?thesis ..
  next
    assume a: "- 126 \<le> \<lfloor>log 2 \<bar>x\<bar>\<rfloor> \<and> float_quantum x = 2 powi (\<lfloor>log 2 \<bar>x\<bar>\<rfloor> - 23)"
    define m where "m = \<lfloor>log 2 \<bar>x\<bar>\<rfloor> - 23"
    define n where "n = nat (m + 149)"
    have "0 \<le> m + 149" unfolding m_def using a by linarith
    then have "int n = m + 149" unfolding n_def by (rule nat_0_le)
    then have mn: "m = int n + (- 149)" by linarith
    have "(2::real) powi (int n + (- 149)) = 2 powi int n * 2 powi (- 149)"
      by (rule power_int_add) simp
    then have "(2::real) powi m = 2 ^ n * float_least"
      by (simp only: mn [symmetric] power_int_of_nat float_least_def)
    with a have "float_quantum x = 2 ^ n * float_least" by (simp only: m_def)
    then show ?thesis ..
  qed
qed

lemma float_round_grid: "\<exists>k::int. float_round x = of_int k * float_least"
proof (cases "x = 0")
  case True
  then have "float_round x = of_int 0 * float_least" by (simp add: float_round_def)
  then show ?thesis ..
next
  case False
  from float_quantum_grid [of x] obtain n :: nat where
    q: "float_quantum x = 2 ^ n * float_least" ..
  have "float_round x = of_int (roundeven (x / float_quantum x)) * float_quantum x"
    using False by (simp only: float_round_def if_False)
  also have "\<dots> = of_int (roundeven (x / float_quantum x) * 2 ^ n) * float_least"
    unfolding q by simp
  finally show ?thesis ..
qed

lemma float_round_near: "\<bar>float_round x - x\<bar> \<le> float_quantum x / 2"
proof (cases "x = 0")
  case True
  then show ?thesis using float_quantum_pos [of x] by (simp add: float_round_def)
next
  case False
  define q where "q = float_quantum x"
  have q: "0 < q" unfolding q_def by (rule float_quantum_pos)
  have "float_round x = of_int (roundeven (x / q)) * q"
    using False by (simp only: float_round_def if_False q_def)
  then have "float_round x - x = (of_int (roundeven (x / q)) - x / q) * q"
    using q by (simp add: field_simps)
  then have "\<bar>float_round x - x\<bar> = \<bar>of_int (roundeven (x / q)) - x / q\<bar> * q"
    using q by (simp add: abs_mult)
  also have "\<dots> \<le> 1 / 2 * q"
    using roundeven_near [of "x / q"] q by (intro mult_right_mono) simp_all
  finally show ?thesis unfolding q_def by simp
qed

lemma float_quantum_le:
  assumes "x \<noteq> 0"
  shows "float_quantum x = float_least \<or> float_quantum x \<le> \<bar>x\<bar> / 2"
proof -
  from float_quantum_cases [of x] show ?thesis
  proof
    assume "float_quantum x = float_least"
    then show ?thesis ..
  next
    assume a: "- 126 \<le> \<lfloor>log 2 \<bar>x\<bar>\<rfloor> \<and> float_quantum x = 2 powi (\<lfloor>log 2 \<bar>x\<bar>\<rfloor> - 23)"
    define e where "e = \<lfloor>log 2 \<bar>x\<bar>\<rfloor>"
    have "real_of_int e \<le> log 2 \<bar>x\<bar>" unfolding e_def by simp
    then have "2 powr real_of_int e \<le> \<bar>x\<bar>"
      using assms by (simp add: le_log_iff)
    then have le: "2 powi e \<le> \<bar>x\<bar>" by (simp add: powr_real_of_int')
    have p: "(0::real) < 2 powi e" by (rule zero_less_power_int) simp
    have "(2::real) powi (e + (- 23)) = 2 powi e * 2 powi (- 23)"
      by (rule power_int_add) simp
    moreover have "(2::real) powi (- 23) \<le> 1 / 2"
      by (simp add: power_int_def power_one_over)
    ultimately have "(2::real) powi (e + (- 23)) \<le> 2 powi e * (1 / 2)"
      using p by (simp only: mult_left_mono less_imp_le)
    moreover have "e + (- 23) = e - 23" by simp
    ultimately have "(2::real) powi (e - 23) \<le> 2 powi e * (1 / 2)" by (simp only:)
    with le have "(2::real) powi (e - 23) \<le> \<bar>x\<bar> / 2" by linarith
    with a have "float_quantum x \<le> \<bar>x\<bar> / 2" by (simp only: e_def)
    then show ?thesis ..
  qed
qed

lemma float_quantum_half_least: "float_quantum (float_least / 2) = float_least"
  and float_quantum_minus: "float_quantum (- x) = float_quantum x"
proof -
  show "float_quantum (- x) = float_quantum x" by (simp add: float_quantum_def)
  have s: "(2::real) powi (- 150 + 1) = 2 powi (- 150) * 2 powi 1"
    by (rule power_int_add) simp
  have n: "(- 150 :: int) + 1 = - 149" by simp
  have h: "float_least / 2 = 2 powi (- 150)"
    using s unfolding float_least_def n by simp
  have p: "(0::real) < 2 powi (- 150)" by (rule zero_less_power_int) simp
  have b: "(2::real) powi (- 150) < 2 powi (- 150 + 1)"
    unfolding s using p by simp
  have "\<lfloor>log 2 ((2::real) powi (- 150))\<rfloor> = - 150"
    by (rule floor_log2_eq) (use b in simp_all)
  then have e: "\<lfloor>log 2 \<bar>float_least / 2\<bar>\<rfloor> = - 150"
    using p by (simp only: h abs_of_pos)
  have m: "max (- 150 :: int) (- 126) - 23 = - 149" by simp
  have "float_quantum (float_least / 2) = 2 powi (max (- 150) (- 126) - 23)"
    by (simp only: float_quantum_def e)
  then show "float_quantum (float_least / 2) = float_least"
    by (simp only: m float_least_def)
qed

lemma float_round_half_least:
  "float_round (float_least / 2) = 0" "float_round (- (float_least / 2)) = 0"
  using float_least_pos
  by (simp_all add: float_round_def float_quantum_minus float_quantum_half_least roundeven_half)

lemma halve_float_round_decreases:
  assumes "k \<noteq> 0"
  shows "\<exists>k'. halve float_round (of_int k * float_least) = of_int k' * float_least \<and>
              \<bar>k'\<bar> < \<bar>k\<bar>"
proof -
  define x where "x = of_int k * float_least"
  define y where "y = x * 0.5"
  have u: "0 < float_least" by (rule float_least_pos)
  from float_round_grid [of y] obtain k' :: int where k': "float_round y = of_int k' * float_least" ..
  have x: "\<bar>x\<bar> = of_int \<bar>k\<bar> * float_least" unfolding x_def using u by (simp add: abs_mult)
  have y: "y \<noteq> 0" unfolding y_def x_def using assms u by simp
  have yx: "\<bar>y\<bar> = \<bar>x\<bar> / 2" unfolding y_def by (simp add: abs_mult)
  have xp: "0 < \<bar>x\<bar>" unfolding x_def using assms u by simp
  have "\<bar>float_round y\<bar> < \<bar>x\<bar>"
  proof (cases "\<bar>k\<bar> = 1")
    case True
    then have "k = 1 \<or> k = - 1" by auto
    then have "y = float_least / 2 \<or> y = - (float_least / 2)"
      unfolding y_def x_def by auto
    then have "float_round y = 0"
      by (elim disjE) (simp_all only: float_round_half_least)
    then show ?thesis using xp by simp
  next
    case False
    with assms have k2: "2 \<le> \<bar>k\<bar>" by simp
    have near: "\<bar>float_round y\<bar> \<le> \<bar>y\<bar> + float_quantum y / 2"
      using float_round_near [of y] by linarith
    from float_quantum_le [OF y] show ?thesis
    proof
      assume q: "float_quantum y = float_least"
      have "real_of_int 2 \<le> real_of_int \<bar>k\<bar>" using k2 by (simp only: of_int_le_iff)
      then have "2 * float_least \<le> \<bar>x\<bar>" unfolding x using u by (simp add: mult_right_mono)
      with near yx q u show ?thesis by linarith
    next
      assume "float_quantum y \<le> \<bar>y\<bar> / 2"
      with near yx xp show ?thesis by linarith
    qed
  qed
  then have "real_of_int \<bar>k'\<bar> * float_least < real_of_int \<bar>k\<bar> * float_least"
    unfolding k' x using u by (simp add: abs_mult)
  then have "real_of_int \<bar>k'\<bar> < real_of_int \<bar>k\<bar>" using u by simp
  then have "\<bar>k'\<bar> < \<bar>k\<bar>" by (simp only: of_int_less_iff)
  moreover have "halve float_round (of_int k * float_least) = of_int k' * float_least"
    using k' unfolding halve_def y_def x_def .
  ultimately show ?thesis by blast
qed

lemma halve_float_round_grid_zero:
  "\<exists>N. (halve float_round ^^ N) (of_int k * float_least) = 0"
proof (induction "nat \<bar>k\<bar>" arbitrary: k rule: less_induct)
  case less
  show ?case
  proof (cases "k = 0")
    case True
    then have "(halve float_round ^^ 0) (of_int k * float_least) = 0" by simp
    then show ?thesis ..
  next
    case False
    from halve_float_round_decreases [OF False] obtain k' where
      h: "halve float_round (of_int k * float_least) = of_int k' * float_least"
      and l: "\<bar>k'\<bar> < \<bar>k\<bar>"
      by blast
    from l have "nat \<bar>k'\<bar> < nat \<bar>k\<bar>" by simp
    from less [OF this] obtain N where
      "(halve float_round ^^ N) (of_int k' * float_least) = 0" ..
    then have "(halve float_round ^^ Suc N) (of_int k * float_least) = 0"
      by (simp only: funpow_Suc_apply h)
    then show ?thesis ..
  qed
qed

lemma halve_float_round_zero: "\<exists>N. (halve float_round ^^ N) h = 0"
proof -
  from float_round_grid [of "h * 0.5"] obtain k :: int where
    k: "halve float_round h = of_int k * float_least"
    unfolding halve_def ..
  from halve_float_round_grid_zero [of k] obtain N where
    "(halve float_round ^^ N) (of_int k * float_least) = 0" ..
  then have "(halve float_round ^^ Suc N) h = 0"
    by (simp only: funpow_Suc_apply k)
  then show ?thesis ..
qed

section \<open>The cached mass of the nodes under the root\<close>

lemma tryChildren_cached:
  assumes "\<And>c ok c'. ins c = Some (ok, c') \<Longrightarrow> cached c' = cached c"
    and "tryChildren ins cs = Some (ok, cs')"
  shows "map cached cs' = map cached cs"
  using assms(2)
proof (induction cs arbitrary: ok cs')
  case Nil
  then show ?case by simp
next
  case (Cons c cs)
  from Cons.prems obtain ok1 c1 where i: "ins c = Some (ok1, c1)"
    by (auto split: option.splits)
  have c1: "cached c1 = cached c" by (rule assms(1) [OF i])
  show ?case
  proof (cases ok1)
    case True
    with Cons.prems i c1 show ?thesis by auto
  next
    case False
    with Cons.prems i obtain ok2 cs2 where
      r: "tryChildren ins cs = Some (ok2, cs2)" and e: "cs' = c1 # cs2"
      by (auto split: option.splits)
    from Cons.IH [OF r] c1 e show ?thesis by simp
  qed
qed

lemma redistribute_cached:
  assumes "\<And>p c ok c'. ins p c = Some (ok, c') \<Longrightarrow> cached c' = cached c"
    and "redistribute ins parts cs = Some cs'"
  shows "map cached cs' = map cached cs"
  using assms(2)
proof (induction parts arbitrary: cs cs')
  case Nil
  then show ?case by simp
next
  case (Cons p parts)
  from Cons.prems obtain ok cs1 where
    t: "tryChildren (ins p) cs = Some (ok, cs1)" and r: "redistribute ins parts cs1 = Some cs'"
    by (auto split: option.splits)
  have "map cached cs1 = map cached cs"
    using tryChildren_cached [OF _ t] assms(1) by blast
  with Cons.IH [OF r] show ?case by simp
qed

lemma insert_subdivide_cached:
  "(\<forall>t p ok t'. insert_particle_fl fl n store t p = Some (ok, t') \<longrightarrow> cached t' = cached t) \<and>
   (\<forall>t t'. subdivide_fl fl n store t = Some t' \<longrightarrow> cached t' = cached t)"
proof (induction n)
  case 0
  then show ?case by simp
next
  case (Suc n)
  have ins: "\<And>c p ok c'. insert_particle_fl fl n store c p = Some (ok, c') \<Longrightarrow> cached c' = cached c"
    using Suc by blast
  have sub: "\<And>t t'. subdivide_fl fl n store t = Some t' \<Longrightarrow> cached t' = cached t"
    using Suc by blast
  show ?case
  proof (intro conjI allI impI)
    fix t p ok t'
    assume a: "insert_particle_fl fl (Suc n) store t p = Some (ok, t')"
    obtain b parts cs com tm leaf where t: "t = QuadTreeNode b parts cs com tm leaf"
      by (cases t)
    show "cached t' = cached t"
      using a unfolding t
      by (auto simp: cached_def split: if_splits option.splits dest!: ins sub)
  next
    fix t t'
    assume a: "subdivide_fl fl (Suc n) store t = Some t'"
    obtain b parts cs com tm leaf where t: "t = QuadTreeNode b parts cs com tm leaf"
      by (cases t)
    show "cached t' = cached t"
      using a unfolding t
      by (auto simp: cached_def split: if_splits option.splits)
  qed
qed

lemma insert_particle_cached:
  "insert_particle_fl fl n store t p = Some (ok, t') \<Longrightarrow> cached t' = cached t"
  using insert_subdivide_cached by blast

lemma cached_totalMass: "map cached cs' = map cached cs \<Longrightarrow> map totalMass cs' = map totalMass cs"
proof -
  assume "map cached cs' = map cached cs"
  then have "map (snd \<circ> snd) (map cached cs') = map (snd \<circ> snd) (map cached cs)" by simp
  then show ?thesis by (simp add: cached_def comp_def)
qed

lemma subdivide_children_massless:
  assumes "subdivide_fl fl n store t = Some t'"
  shows "\<forall>c\<in>set (children t'). totalMass c = 0"
proof -
  obtain b parts cs com tm leaf where t: "t = QuadTreeNode b parts cs com tm leaf"
    by (cases t)
  from assms obtain m where n: "n = Suc m" by (cases n) auto
  from assms obtain cs' where
    r: "redistribute (\<lambda>p c. insert_particle_fl fl m store c p) parts (map newNode (childBoundaries_fl fl b)) = Some cs'"
    and t': "t' = QuadTreeNode b [] cs' com tm False"
    unfolding t n by (auto split: option.splits)
  have "map cached cs' = map cached (map newNode (childBoundaries_fl fl b))"
    by (rule redistribute_cached [OF _ r]) (rule insert_particle_cached)
  then have "map totalMass cs' = map totalMass (map newNode (childBoundaries_fl fl b))"
    by (rule cached_totalMass)
  then have "set (map totalMass cs') \<subseteq> {0}"
    by (auto simp: newNode_def)
  then show ?thesis unfolding t' by auto
qed

lemma insert_particle_children_massless:
  assumes "insert_particle_fl fl n store t p = Some (ok, t')"
    and "\<forall>c\<in>set (children t). totalMass c = 0"
  shows "\<forall>c\<in>set (children t'). totalMass c = 0"
proof -
  obtain b parts cs com tm leaf where t: "t = QuadTreeNode b parts cs com tm leaf"
    by (cases t)
  from assms(1) obtain m where n: "n = Suc m" by (cases n) auto
  note a = assms(1) [unfolded t n]
  consider (out) "\<not> contains_fl fl b (position (store ! p))"
    | (room) "contains_fl fl b (position (store ! p))" "leaf" "length parts < MAX_PARTICLES"
    | (full) "contains_fl fl b (position (store ! p))" "leaf" "\<not> length parts < MAX_PARTICLES"
    | (inner) "contains_fl fl b (position (store ! p))" "\<not> leaf"
    by blast
  then show ?thesis
  proof cases
    case out
    with a assms(2) show ?thesis by (simp add: t)
  next
    case room
    with a assms(2) show ?thesis by (auto simp: t)
  next
    case full
    with a obtain node' where s: "subdivide_fl fl m store (QuadTreeNode b parts cs com tm leaf) = Some node'"
      and i: "insert_particle_fl fl m store node' p = Some (ok, t')"
      by (auto split: option.splits)
    from i obtain k where m: "m = Suc k" by (cases m) auto
    obtain b2 parts2 cs2 com2 tm2 leaf2 where n': "node' = QuadTreeNode b2 parts2 cs2 com2 tm2 leaf2"
      by (cases node')
    have z: "\<forall>c\<in>set cs2. totalMass c = 0"
      using subdivide_children_massless [OF s] by (simp add: n')
    have nl: "\<not> leaf2"
      using s unfolding m n' by (auto split: option.splits)
    show ?thesis
    proof (cases "contains_fl fl b2 (position (store ! p))")
      case False
      with i z show ?thesis unfolding m n' by auto
    next
      case True
      with i nl obtain cs' where
        tc: "tryChildren (\<lambda>c. insert_particle_fl fl k store c p) cs2 = Some (ok, cs')"
        and t': "t' = QuadTreeNode b2 parts2 cs' com2 tm2 leaf2"
        unfolding m n' by (auto split: option.splits)
      have "map cached cs' = map cached cs2"
        by (rule tryChildren_cached [OF _ tc]) (rule insert_particle_cached)
      then have "map totalMass cs' = map totalMass cs2"
        by (rule cached_totalMass)
      then have "set (map totalMass cs') = set (map totalMass cs2)" by simp
      with z show ?thesis unfolding t' by auto
    qed
  next
    case inner
    with a obtain cs' where
      tc: "tryChildren (\<lambda>c. insert_particle_fl fl m store c p) cs = Some (ok, cs')"
      and t': "t' = QuadTreeNode b parts cs' com tm leaf"
      by (auto split: option.splits)
    have "map cached cs' = map cached cs"
      by (rule tryChildren_cached [OF _ tc]) (rule insert_particle_cached)
    then have "map totalMass cs' = map totalMass cs"
      by (rule cached_totalMass)
    then have "set (map totalMass cs') = set (map totalMass cs)" by simp
    with assms(2) show ?thesis unfolding t t' by auto
  qed
qed

lemma insertAll_children_massless:
  "insertAll_fl fl fuel store idx t = Some t' \<Longrightarrow> \<forall>c\<in>set (children t). totalMass c = 0
     \<Longrightarrow> \<forall>c\<in>set (children t'). totalMass c = 0"
proof (induction idx arbitrary: t)
  case Nil
  then show ?case by simp
next
  case (Cons p idx)
  from Cons.prems(1) obtain ok t1 where
    i: "insert_particle_fl fl fuel store t p = Some (ok, t1)" and r: "insertAll_fl fl fuel store idx t1 = Some t'"
    by (auto split: option.splits)
  from insert_particle_children_massless [OF i Cons.prems(2)] Cons.IH [OF r]
  show ?case by blast
qed

lemma fold_massless_children:
  "\<forall>c\<in>set cs. totalMass c = 0 \<Longrightarrow>
   fold (\<lambda>child (tm, com).
           if totalMass child > 0
           then (tm + totalMass child, vadd com (vmul (centerOfMass child) (totalMass child)))
           else (tm, com)) cs acc = acc"
  by (induction cs arbitrary: acc) (auto split: prod.splits)

lemma updateCenterOfMass_inner:
  assumes "\<not> isLeaf t" and "\<forall>c\<in>set (children t). totalMass c = 0"
  shows "totalMass (updateCenterOfMass store t) = 0"
  using assms by (simp add: updateCenterOfMass_def fold_massless_children)

lemma updateCenterOfMass_shape:
  "particles (updateCenterOfMass store t) = particles t \<and>
   isLeaf (updateCenterOfMass store t) = isLeaf t \<and>
   children (updateCenterOfMass store t) = children t \<and>
   boundary (updateCenterOfMass store t) = boundary t"
  by (simp add: updateCenterOfMass_def Let_def split: prod.splits)

lemma updateCenterOfMass_empty_leaf:
  "isLeaf t \<Longrightarrow> particles t = [] \<Longrightarrow> totalMass (updateCenterOfMass store t) = 0"
  by (simp add: updateCenterOfMass_def)

lemma computeForce_guarded:
  assumes "\<not> isLeaf t \<longrightarrow> totalMass t = 0" and "particles t = [] \<longrightarrow> totalMass t = 0"
  shows "\<exists>f. computeForce store t q force theta G softening = Inr f"
proof -
  obtain b parts cs com tm leaf where t: "t = QuadTreeNode b parts cs com tm leaf"
    by (cases t)
  from assms show ?thesis unfolding t by (auto simp: Let_def)
qed

section \<open>The guard of the traversal\<close>

text \<open>
  On a node of mass other than 0 that holds no particle, the guard reads the first
  element of the empty list before it looks at the size.
\<close>

lemma computeForce_massive_empty:
  "tm \<noteq> 0 \<Longrightarrow>
   computeForce store (QuadTreeNode b [] cs com tm leaf) q force theta G softening
     = Inl FrontOfEmpty"
  by simp

text \<open>
  The traversals of \<^verbatim>\<open>computeForces\<close> do not come to this read, in any rounding: they
  start at a root fresh from \<open>build\<close>, whose cached mass is 0 when it has been
  subdivided, because the children still have the mass 0 they were made with. The
  aggregation that would give a subdivided node its mass would take every traversal of
  such a node to the read.
\<close>

lemma computeForce_after_build:
  assumes "build_fl fl fuel store (newNode b) = Some t"
  shows "computeForce store t q force theta G softening \<noteq> Inl FrontOfEmpty"
proof -
  from assms obtain t0 where
    i: "insertAll_fl fl fuel store [0..<length store] (newNode b) = Some t0"
    and t: "t = updateCenterOfMass store t0"
    by (auto simp: build_fl_def split: option.splits)
  have "\<forall>c\<in>set (children (newNode b)). totalMass c = 0"
    by (simp add: newNode_def)
  then have z: "\<forall>c\<in>set (children t0). totalMass c = 0"
    by (rule insertAll_children_massless [OF i])
  have 1: "\<not> isLeaf t \<longrightarrow> totalMass t = 0"
    using updateCenterOfMass_inner [OF _ z] updateCenterOfMass_shape [of store t0] t by auto
  have 2: "particles t = [] \<longrightarrow> totalMass t = 0"
    using 1 updateCenterOfMass_empty_leaf [of t0 store] updateCenterOfMass_shape [of store t0] t
    by (cases "isLeaf t") auto
  from computeForce_guarded [OF 1 2, of store q force theta G softening]
  show ?thesis by auto
qed

text \<open>
  C9. The guard does read \<^verbatim>\<open>particles.front()\<close> of an empty particle list, on a node
  that is not a leaf and has a mass above 0. \<open>build\<close> on the first of the two bodies
  leaves a root leaf of mass 1; \<^verbatim>\<open>insert\<close> of the second body subdivides the root,
  which keeps its mass and gives its particle to a child; \<^verbatim>\<open>computeForce\<close> on this
  root finds \<^verbatim>\<open>totalMass == 0\<close> false and reads the first element of the empty list.
  The index 0 is the first body in both particle vectors, as its address is in the code.
\<close>

theorem computeForce_front_of_empty:
  "build 1 [body 0 0 1] (newNode (rootBoundary twoBodies)) = Some firstLeaf \<and>
   insert_particle 3 twoBodies firstLeaf 1 = Some (True, lateTree) \<and>
   \<not> isLeaf lateTree \<and> 0 < totalMass lateTree \<and> particles lateTree = [] \<and>
   computeForce twoBodies lateTree 0 (0, 0) (1 / 2) 1 0 = Inl FrontOfEmpty"
  using build_firstLeaf insert_lateTree by (simp add: lateTree_def)

text \<open>
  C3. \<^verbatim>\<open>computeForce\<close> returns at once and leaves the force as it was on a node of
  \<^verbatim>\<open>totalMass == 0\<close> and on a node whose only stored particle is the query particle.
\<close>

theorem computeForce_skips:
  "totalMass node = 0 \<or> particles node = [q] \<Longrightarrow>
   computeForce store node q force theta G softening = Inr force"
  by (cases node) auto

theorem computeForce_skips_witness:
  "(totalMass soleLeaf = 0 \<or> particles soleLeaf = [0]) \<and>
   computeForce twoBodies soleLeaf 0 (5, 7) (1 / 2) 1 0 = Inr (5, 7)"
  using computeForce_skips [of soleLeaf 0 twoBodies "(5, 7)" "1 / 2" 1 0]
  by (simp add: soleLeaf_def)

section \<open>Mass aggregation and the opening-angle limit on two bodies\<close>

text \<open>
  Whatever the particles, a root that \<open>build\<close> has subdivided ends with the cached mass 0:
  its children still have the mass 0 they were made with.
\<close>

lemma build_subdivided_totalMass:
  assumes "build_fl fl fuel store (newNode b) = Some t" and "\<not> isLeaf t"
  shows "totalMass t = 0"
proof -
  from assms(1) obtain t0 where
    i: "insertAll_fl fl fuel store [0..<length store] (newNode b) = Some t0"
    and t: "t = updateCenterOfMass store t0"
    by (auto simp: build_fl_def split: option.splits)
  have "\<forall>c\<in>set (children (newNode b)). totalMass c = 0"
    by (simp add: newNode_def)
  then have z: "\<forall>c\<in>set (children t0). totalMass c = 0"
    by (rule insertAll_children_massless [OF i])
  from assms(2) t have "\<not> isLeaf t0"
    using updateCenterOfMass_shape [of store t0] by simp
  from updateCenterOfMass_inner [OF this z] t show ?thesis by simp
qed

text \<open>
  C1. On the two unit masses, whose positions the root boundary contains, \<open>build\<close>
  returns a root of \<^verbatim>\<open>totalMass\<close> 0 while the masses sum to 2: the root has been
  subdivided, and \<^verbatim>\<open>updateCenterOfMass\<close> runs on the root only and reads the
  \<^verbatim>\<open>totalMass\<close> of children on which it never ran.
\<close>

theorem build_twoBodies_totalMass:
  "contains (rootBoundary twoBodies) (position (twoBodies ! 0)) \<and>
   contains (rootBoundary twoBodies) (position (twoBodies ! 1)) \<and>
   (\<exists>t. build 3 twoBodies (newNode (rootBoundary twoBodies)) = Some t \<and>
        totalMass t = 0 \<and> sum_list (map mass twoBodies) = 2)"
proof -
  have "contains (rootBoundary twoBodies) (position (twoBodies ! 0))"
    "contains (rootBoundary twoBodies) (position (twoBodies ! 1))"
    unfolding rootBoundary_twoBodies by (simp_all add: twoBodies_def body_def contains_fl_def)
  moreover have "totalMass twoBodiesTree = 0" "sum_list (map mass twoBodies) = 2"
    by (simp_all add: twoBodiesTree_def twoBodies_def body_def)
  ultimately show ?thesis by (simp add: build_twoBodies)
qed

text \<open>
  C2. On the two unit masses, with \<open>G = 1\<close> and no softening, the Barnes-Hut forces are
  zero for every \<open>theta\<close>, and the all-pairs forces are not.
\<close>

theorem computeForces_twoBodies:
  "computeForces 3 theta twoBodies 1 0 = Some (Inr [(0, 0), (0, 0)]) \<and>
   NBody_computeForces 1 0 twoBodies = [(1, 0), (- 1, 0)]"
proof
  have "forceLoop twoBodies twoBodiesTree [0..<length twoBodies] theta 1 0 = Inr [(0, 0), (0, 0)]"
    by (simp add: twoBodies_def twoBodiesTree_def upt_rec)
  then show "computeForces 3 theta twoBodies 1 0 = Some (Inr [(0, 0), (0, 0)])"
    by (simp add: computeForces_fl_def build_twoBodies) (simp add: twoBodies_def)
  show "NBody_computeForces 1 0 twoBodies = [(1, 0), (- 1, 0)]"
    by (simp add: NBody_computeForces_def twoBodies_def body_def upt_rec pairForce_def
        vadd_def vsub_def vmul_def)
qed

section \<open>The loops of the integrator\<close>

lemma displaceLoop_keeps:
  "displaceLoop initial dt d idx (state, temp) = Inr (state', temp') \<Longrightarrow>
     length temp' = length temp \<and>
     (\<forall>j. fixed (temp' ! j) = fixed (temp ! j) \<and> mass (temp' ! j) = mass (temp ! j))"
proof (induction idx arbitrary: state temp)
  case Nil
  then show ?case by simp
next
  case (Cons i idx)
  let ?pos = "vadd (positions initial ! i) (vmul (dpos d ! i) dt)"
  let ?vel = "vadd (velocities initial ! i) (vmul (dvel d ! i) dt)"
  let ?state1 = "state\<lparr>positions := (positions state)[i := ?pos],
                        velocities := (velocities state)[i := ?vel]\<rparr>"
  let ?temp1 = "temp[i := (temp ! i)\<lparr>position := ?pos, velocity := ?vel\<rparr>]"
  from Cons.prems have ok: "i < length temp"
    and r: "displaceLoop initial dt d idx (?state1, ?temp1) = Inr (state', temp')"
    by (auto simp: Let_def split: if_splits)
  have "\<forall>j. fixed (?temp1 ! j) = fixed (temp ! j) \<and> mass (?temp1 ! j) = mass (temp ! j)"
    using ok by (simp add: nth_list_update)
  with Cons.IH [OF r] show ?case by simp
qed

lemma displaceLoop_char:
  assumes "\<forall>i\<in>set idx. i < length (dpos d) \<and> i < length (dvel d) \<and> i < length (velocities initial)
             \<and> i < length (positions state) \<and> i < length (velocities state) \<and> i < length temp"
  shows "\<exists>state' temp'. displaceLoop initial dt d idx (state, temp) = Inr (state', temp') \<and>
           length (positions state') = length (positions state) \<and>
           length (velocities state') = length (velocities state) \<and>
           length temp' = length temp \<and>
           (\<forall>j. positions state' ! j =
                  (if j \<in> set idx then vadd (positions initial ! j) (vmul (dpos d ! j) dt)
                   else positions state ! j)) \<and>
           (\<forall>j. velocities state' ! j =
                  (if j \<in> set idx then vadd (velocities initial ! j) (vmul (dvel d ! j) dt)
                   else velocities state ! j)) \<and>
           (\<forall>j. temp' ! j =
                  (if j \<in> set idx
                   then (temp ! j)\<lparr>position := vadd (positions initial ! j) (vmul (dpos d ! j) dt),
                                   velocity := vadd (velocities initial ! j) (vmul (dvel d ! j) dt)\<rparr>
                   else temp ! j))"
  using assms
proof (induction idx arbitrary: state temp)
  case Nil
  then show ?case by simp
next
  case (Cons i idx)
  let ?pos = "vadd (positions initial ! i) (vmul (dpos d ! i) dt)"
  let ?vel = "vadd (velocities initial ! i) (vmul (dvel d ! i) dt)"
  let ?state1 = "state\<lparr>positions := (positions state)[i := ?pos],
                        velocities := (velocities state)[i := ?vel]\<rparr>"
  let ?temp1 = "temp[i := (temp ! i)\<lparr>position := ?pos, velocity := ?vel\<rparr>]"
  from Cons.prems have ok: "i < length (dpos d)" "i < length (dvel d)" "i < length (velocities initial)"
    "i < length (positions state)" "i < length (velocities state)" "i < length temp"
    by simp_all
  have step: "displaceLoop initial dt d (i # idx) (state, temp) =
              displaceLoop initial dt d idx (?state1, ?temp1)"
    using ok by (simp add: Let_def)
  have pre: "\<forall>i\<in>set idx. i < length (dpos d) \<and> i < length (dvel d) \<and> i < length (velocities initial)
             \<and> i < length (positions ?state1) \<and> i < length (velocities ?state1) \<and> i < length ?temp1"
    using Cons.prems by simp
  from Cons.IH [OF pre] obtain state' temp' where
    r: "displaceLoop initial dt d idx (?state1, ?temp1) = Inr (state', temp')"
    and l: "length (positions state') = length (positions ?state1)"
      "length (velocities state') = length (velocities ?state1)"
      "length temp' = length ?temp1"
    and p: "\<forall>j. positions state' ! j =
                  (if j \<in> set idx then vadd (positions initial ! j) (vmul (dpos d ! j) dt)
                   else positions ?state1 ! j)"
    and v: "\<forall>j. velocities state' ! j =
                  (if j \<in> set idx then vadd (velocities initial ! j) (vmul (dvel d ! j) dt)
                   else velocities ?state1 ! j)"
    and t: "\<forall>j. temp' ! j =
                  (if j \<in> set idx
                   then (?temp1 ! j)\<lparr>position := vadd (positions initial ! j) (vmul (dpos d ! j) dt),
                                   velocity := vadd (velocities initial ! j) (vmul (dvel d ! j) dt)\<rparr>
                   else ?temp1 ! j)"
    by blast
  have p': "\<forall>j. positions state' ! j =
                  (if j \<in> set (i # idx) then vadd (positions initial ! j) (vmul (dpos d ! j) dt)
                   else positions state ! j)"
    using p ok by (simp add: nth_list_update)
  have v': "\<forall>j. velocities state' ! j =
                  (if j \<in> set (i # idx) then vadd (velocities initial ! j) (vmul (dvel d ! j) dt)
                   else velocities state ! j)"
    using v ok by (simp add: nth_list_update)
  have t': "\<forall>j. temp' ! j =
                  (if j \<in> set (i # idx)
                   then (temp ! j)\<lparr>position := vadd (positions initial ! j) (vmul (dpos d ! j) dt),
                                   velocity := vadd (velocities initial ! j) (vmul (dvel d ! j) dt)\<rparr>
                   else temp ! j)"
    using t ok by (simp add: nth_list_update)
  from step r l p' v' t' show ?case by simp
qed

lemma accelLoop_char:
  assumes "\<forall>i\<in>set idx. i < length temp \<and> i < length out"
  shows "\<exists>out'. accelLoop forces temp idx out = Inr out' \<and> length out' = length out \<and>
           (\<forall>j. out' ! j = (if j \<in> set idx then vdiv (forces ! j) (mass (temp ! j)) else out ! j))"
  using assms
proof (induction idx arbitrary: out)
  case Nil
  then show ?case by simp
next
  case (Cons i idx)
  let ?out1 = "out[i := vdiv (forces ! i) (mass (temp ! i))]"
  from Cons.prems have ok: "i < length temp" "i < length out" by simp_all
  have pre: "\<forall>i\<in>set idx. i < length temp \<and> i < length ?out1"
    using Cons.prems by simp
  from Cons.IH [OF pre] obtain out' where
    r: "accelLoop forces temp idx ?out1 = Inr out'" and l: "length out' = length ?out1"
    and n: "\<forall>j. out' ! j = (if j \<in> set idx then vdiv (forces ! j) (mass (temp ! j)) else ?out1 ! j)"
    by blast
  have "\<forall>j. out' ! j = (if j \<in> set (i # idx) then vdiv (forces ! j) (mass (temp ! j)) else out ! j)"
    using n ok by (simp add: nth_list_update)
  with r l ok show ?case by simp
qed

lemma displace_eq:
  assumes "length ps \<le> length (dpos d)" and "length ps \<le> length (dvel d)"
  shows "\<exists>state. displace (initialState ps) dt d ps = Inr (state, spec_displace ps d dt) \<and>
           velocities state = map velocity (spec_displace ps d dt)"
proof -
  let ?n = "length ps"
  let ?s0 = "\<lparr>positions = replicate (length (positions (initialState ps))) (0, 0),
              velocities = replicate (length (velocities (initialState ps))) (0, 0)\<rparr>"
  have pre: "\<forall>i\<in>set [0..<?n]. i < length (dpos d) \<and> i < length (dvel d)
               \<and> i < length (velocities (initialState ps))
               \<and> i < length (positions ?s0) \<and> i < length (velocities ?s0) \<and> i < length ps"
    using assms by (simp add: initialState_def)
  from displaceLoop_char [OF pre, of dt] obtain state' temp' where
    r: "displaceLoop (initialState ps) dt d [0..<?n] (?s0, ps) = Inr (state', temp')"
    and lv: "length (velocities state') = ?n" and lt: "length temp' = ?n"
    and v: "\<forall>j. velocities state' ! j =
                  (if j \<in> set [0..<?n] then vadd (velocities (initialState ps) ! j) (vmul (dvel d ! j) dt)
                   else velocities ?s0 ! j)"
    and t: "\<forall>j. temp' ! j =
                  (if j \<in> set [0..<?n]
                   then (ps ! j)\<lparr>position := vadd (positions (initialState ps) ! j) (vmul (dpos d ! j) dt),
                                   velocity := vadd (velocities (initialState ps) ! j) (vmul (dvel d ! j) dt)\<rparr>
                   else ps ! j)"
    by (auto simp: initialState_def)
  have ls: "length (spec_displace ps d dt) = ?n"
    using assms by (simp add: spec_displace_def)
  have ns: "\<And>j. j < ?n \<Longrightarrow> spec_displace ps d dt ! j =
               (ps ! j)\<lparr>position := vadd (position (ps ! j)) (vmul (dpos d ! j) dt),
                        velocity := vadd (velocity (ps ! j)) (vmul (dvel d ! j) dt)\<rparr>"
    using assms by (simp add: spec_displace_def)
  have te: "temp' = spec_displace ps d dt"
  proof (rule nth_equalityI)
    show "length temp' = length (spec_displace ps d dt)" using lt ls by simp
  next
    fix j assume "j < length temp'"
    then have j: "j < ?n" using lt by simp
    then show "temp' ! j = spec_displace ps d dt ! j"
      using t ns [OF j] by (simp add: initialState_def)
  qed
  have ve: "velocities state' = map velocity (spec_displace ps d dt)"
  proof (rule nth_equalityI)
    show "length (velocities state') = length (map velocity (spec_displace ps d dt))"
      using lv ls by simp
  next
    fix j assume "j < length (velocities state')"
    then have j: "j < ?n" using lv by simp
    then show "velocities state' ! j = map velocity (spec_displace ps d dt) ! j"
      using v ns [OF j] ls by (simp add: initialState_def)
  qed
  from r te ve show ?thesis
    by (simp add: displace_def initialState_def)
qed

lemma evaluate_eq:
  assumes "length ps \<le> length (dpos d)" and "length ps \<le> length (dvel d)"
    and "length (forceFunc (spec_displace ps d dt)) \<le> length ps"
  shows "evaluate (initialState ps) dt d forceFunc ps = Inr (spec_derivative forceFunc (spec_displace ps d dt))"
proof -
  let ?snap = "spec_displace ps d dt"
  let ?forces = "forceFunc ?snap"
  from displace_eq [OF assms(1,2), of dt] obtain state where
    d: "displace (initialState ps) dt d ps = Inr (state, ?snap)"
    and v: "velocities state = map velocity ?snap"
    by blast
  have ls: "length ?snap = length ps"
    using assms(1,2) by (simp add: spec_displace_def)
  have pre: "\<forall>i\<in>set [0..<length ?forces]. i < length ?snap \<and> i < length (replicate (length ?forces) (0::real, 0::real))"
    using assms(3) ls by simp
  from accelLoop_char [OF pre, of ?forces] obtain out' where
    r: "accelLoop ?forces ?snap [0..<length ?forces] (replicate (length ?forces) (0, 0)) = Inr out'"
    and l: "length out' = length ?forces"
    and n: "\<forall>j. out' ! j = (if j \<in> set [0..<length ?forces] then vdiv (?forces ! j) (mass (?snap ! j))
                              else replicate (length ?forces) (0, 0) ! j)"
    by auto
  have "out' = map (\<lambda>(F, p). vdiv F (mass p)) (zip ?forces ?snap)"
  proof (rule nth_equalityI)
    show "length out' = length (map (\<lambda>(F, p). vdiv F (mass p)) (zip ?forces ?snap))"
      using l assms(3) ls by simp
  next
    fix j assume "j < length out'"
    then have j: "j < length ?forces" using l by simp
    then show "out' ! j = map (\<lambda>(F, p). vdiv F (mass p)) (zip ?forces ?snap) ! j"
      using n assms(3) ls by simp
  qed
  with d r v show ?thesis
    by (simp add: evaluate_def spec_derivative_def)
qed

lemma spec_displace_zero:
  "spec_displace ps \<lparr>dpos = replicate (length ps) (0, 0), dvel = replicate (length ps) (0, 0)\<rparr> 0 = ps"
  by (rule nth_equalityI) (simp_all add: spec_displace_def vadd_def vmul_def)

lemma length_spec_displace:
  "length ps \<le> length (dpos k) \<Longrightarrow> length ps \<le> length (dvel k) \<Longrightarrow>
   length (spec_displace ps k h) = length ps"
  by (simp add: spec_displace_def)

lemma updateLoop_fixed:
  "updateLoop k1 k2 k3 k4 dt idx ps = Inr ps' \<Longrightarrow>
     length ps' = length ps \<and> (\<forall>j. fixed (ps ! j) \<longrightarrow> ps' ! j = ps ! j)"
proof (induction idx arbitrary: ps)
  case Nil
  then show ?case by simp
next
  case (Cons i idx)
  show ?case
  proof (cases "fixed (ps ! i)")
    case True
    with Cons.prems have "updateLoop k1 k2 k3 k4 dt idx ps = Inr ps'" by simp
    from Cons.IH [OF this] show ?thesis .
  next
    case False
    let ?dxdt = "rk4 (dpos k1 ! i) (dpos k2 ! i) (dpos k3 ! i) (dpos k4 ! i)"
    let ?dvdt = "rk4 (dvel k1 ! i) (dvel k2 ! i) (dvel k3 ! i) (dvel k4 ! i)"
    let ?ps1 = "ps[i := (ps ! i)\<lparr>position := vadd (position (ps ! i)) (vmul ?dxdt dt),
                                  velocity := vadd (velocity (ps ! i)) (vmul ?dvdt dt),
                                  acceleration := ?dvdt\<rparr>]"
    from False Cons.prems have r: "updateLoop k1 k2 k3 k4 dt idx ?ps1 = Inr ps'"
      by (auto simp: Let_def split: if_splits)
    have "\<forall>j. fixed (ps ! j) \<longrightarrow> ?ps1 ! j = ps ! j"
      using False by (metis nth_list_update_neq)
    with Cons.IH [OF r] show ?thesis by auto
  qed
qed

lemma updateLoop_char:
  assumes "distinct idx"
    and "\<forall>i\<in>set idx. i < length ps \<and> i < length (dpos k1) \<and> i < length (dpos k2) \<and> i < length (dpos k3)
            \<and> i < length (dpos k4) \<and> i < length (dvel k1) \<and> i < length (dvel k2)
            \<and> i < length (dvel k3) \<and> i < length (dvel k4)"
  shows "\<exists>ps'. updateLoop k1 k2 k3 k4 dt idx ps = Inr ps' \<and> length ps' = length ps \<and>
           (\<forall>j. ps' ! j =
              (if j \<in> set idx \<and> \<not> fixed (ps ! j)
               then (ps ! j)\<lparr>position := vadd (position (ps ! j))
                                 (vmul (rk4 (dpos k1 ! j) (dpos k2 ! j) (dpos k3 ! j) (dpos k4 ! j)) dt),
                              velocity := vadd (velocity (ps ! j))
                                 (vmul (rk4 (dvel k1 ! j) (dvel k2 ! j) (dvel k3 ! j) (dvel k4 ! j)) dt),
                              acceleration := rk4 (dvel k1 ! j) (dvel k2 ! j) (dvel k3 ! j) (dvel k4 ! j)\<rparr>
               else ps ! j))"
  using assms
proof (induction idx arbitrary: ps)
  case Nil
  then show ?case by simp
next
  case (Cons i idx)
  from Cons.prems have d: "distinct idx" and ni: "i \<notin> set idx" and il: "i < length ps" by simp_all
  show ?case
  proof (cases "fixed (ps ! i)")
    case True
    have pre: "\<forall>i\<in>set idx. i < length ps \<and> i < length (dpos k1) \<and> i < length (dpos k2) \<and> i < length (dpos k3)
            \<and> i < length (dpos k4) \<and> i < length (dvel k1) \<and> i < length (dvel k2)
            \<and> i < length (dvel k3) \<and> i < length (dvel k4)"
      using Cons.prems(2) by simp
    from Cons.IH [OF d pre] True show ?thesis by auto
  next
    case False
    let ?dxdt = "rk4 (dpos k1 ! i) (dpos k2 ! i) (dpos k3 ! i) (dpos k4 ! i)"
    let ?dvdt = "rk4 (dvel k1 ! i) (dvel k2 ! i) (dvel k3 ! i) (dvel k4 ! i)"
    let ?ps1 = "ps[i := (ps ! i)\<lparr>position := vadd (position (ps ! i)) (vmul ?dxdt dt),
                                  velocity := vadd (velocity (ps ! i)) (vmul ?dvdt dt),
                                  acceleration := ?dvdt\<rparr>]"
    have step: "updateLoop k1 k2 k3 k4 dt (i # idx) ps = updateLoop k1 k2 k3 k4 dt idx ?ps1"
      using False Cons.prems(2) by (simp add: Let_def)
    have pre: "\<forall>i\<in>set idx. i < length ?ps1 \<and> i < length (dpos k1) \<and> i < length (dpos k2) \<and> i < length (dpos k3)
            \<and> i < length (dpos k4) \<and> i < length (dvel k1) \<and> i < length (dvel k2)
            \<and> i < length (dvel k3) \<and> i < length (dvel k4)"
      using Cons.prems(2) by simp
    from Cons.IH [OF d pre] obtain ps' where
      r: "updateLoop k1 k2 k3 k4 dt idx ?ps1 = Inr ps'" and l: "length ps' = length ?ps1"
      and n: "\<forall>j. ps' ! j =
              (if j \<in> set idx \<and> \<not> fixed (?ps1 ! j)
               then (?ps1 ! j)\<lparr>position := vadd (position (?ps1 ! j))
                                 (vmul (rk4 (dpos k1 ! j) (dpos k2 ! j) (dpos k3 ! j) (dpos k4 ! j)) dt),
                              velocity := vadd (velocity (?ps1 ! j))
                                 (vmul (rk4 (dvel k1 ! j) (dvel k2 ! j) (dvel k3 ! j) (dvel k4 ! j)) dt),
                              acceleration := rk4 (dvel k1 ! j) (dvel k2 ! j) (dvel k3 ! j) (dvel k4 ! j)\<rparr>
               else ?ps1 ! j)"
      by blast
    have "\<forall>j. ps' ! j =
              (if j \<in> set (i # idx) \<and> \<not> fixed (ps ! j)
               then (ps ! j)\<lparr>position := vadd (position (ps ! j))
                                 (vmul (rk4 (dpos k1 ! j) (dpos k2 ! j) (dpos k3 ! j) (dpos k4 ! j)) dt),
                              velocity := vadd (velocity (ps ! j))
                                 (vmul (rk4 (dvel k1 ! j) (dvel k2 ! j) (dvel k3 ! j) (dvel k4 ! j)) dt),
                              acceleration := rk4 (dvel k1 ! j) (dvel k2 ! j) (dvel k3 ! j) (dvel k4 ! j)\<rparr>
               else ps ! j)"
    proof
      fix j
      show "ps' ! j =
              (if j \<in> set (i # idx) \<and> \<not> fixed (ps ! j)
               then (ps ! j)\<lparr>position := vadd (position (ps ! j))
                                 (vmul (rk4 (dpos k1 ! j) (dpos k2 ! j) (dpos k3 ! j) (dpos k4 ! j)) dt),
                              velocity := vadd (velocity (ps ! j))
                                 (vmul (rk4 (dvel k1 ! j) (dvel k2 ! j) (dvel k3 ! j) (dvel k4 ! j)) dt),
                              acceleration := rk4 (dvel k1 ! j) (dvel k2 ! j) (dvel k3 ! j) (dvel k4 ! j)\<rparr>
               else ps ! j)"
      proof (cases "j = i")
        case True
        with n ni il False show ?thesis by simp
      next
        case False
        with n show ?thesis by simp
      qed
    qed
    with step r l show ?thesis by simp
  qed
qed

lemma spec_derivative_lengths:
  "length (forceFunc snap) = length snap \<Longrightarrow>
   length (dpos (spec_derivative forceFunc snap)) = length snap \<and>
   length (dvel (spec_derivative forceFunc snap)) = length snap"
  by (simp add: spec_derivative_def)

text \<open>What a loop that has returned says of the lengths of the vectors it indexed.\<close>

lemma displaceLoop_bounds:
  "displaceLoop initial dt d idx (state, temp) = Inr r \<Longrightarrow>
     \<forall>i\<in>set idx. i < length (dpos d) \<and> i < length (dvel d)"
proof (induction idx arbitrary: state temp)
  case Nil
  then show ?case by simp
next
  case (Cons i idx)
  let ?pos = "vadd (positions initial ! i) (vmul (dpos d ! i) dt)"
  let ?vel = "vadd (velocities initial ! i) (vmul (dvel d ! i) dt)"
  let ?state1 = "state\<lparr>positions := (positions state)[i := ?pos],
                        velocities := (velocities state)[i := ?vel]\<rparr>"
  let ?temp1 = "temp[i := (temp ! i)\<lparr>position := ?pos, velocity := ?vel\<rparr>]"
  from Cons.prems have ok: "i < length (dpos d)" "i < length (dvel d)"
    and r: "displaceLoop initial dt d idx (?state1, ?temp1) = Inr r"
    by (auto simp: Let_def split: if_splits)
  from Cons.IH [OF r] ok show ?case by simp
qed

lemma accelLoop_bounds:
  "accelLoop forces temp idx out = Inr r \<Longrightarrow> \<forall>i\<in>set idx. i < length temp"
proof (induction idx arbitrary: out)
  case Nil
  then show ?case by simp
next
  case (Cons i idx)
  from Cons.prems have ok: "i < length temp"
    and r: "accelLoop forces temp idx (out[i := vdiv (forces ! i) (mass (temp ! i))]) = Inr r"
    by (auto split: if_splits)
  from Cons.IH [OF r] ok show ?case by simp
qed

lemma upt_below: "\<forall>i\<in>set [0..<n]. i < m \<Longrightarrow> n \<le> m"
  by (cases n) auto

lemma evaluate_returns:
  assumes "evaluate (initialState ps) h d forceFunc ps = Inr out"
  shows "length ps \<le> length (dpos d) \<and> length ps \<le> length (dvel d) \<and>
         length (forceFunc (spec_displace ps d h)) \<le> length ps \<and>
         out = spec_derivative forceFunc (spec_displace ps d h)"
proof -
  from assms obtain state temp where
    d: "displace (initialState ps) h d ps = Inr (state, temp)"
    and a: "\<exists>acc. accelLoop (forceFunc temp) temp [0..<length (forceFunc temp)]
                   (replicate (length (forceFunc temp)) (0, 0)) = Inr acc"
    by (auto simp: evaluate_def Let_def split: sum.splits prod.splits)
  from d have "\<forall>i\<in>set [0..<length ps]. i < length (dpos d) \<and> i < length (dvel d)"
    unfolding displace_def initialState_def by (auto dest: displaceLoop_bounds)
  then have l: "length ps \<le> length (dpos d)" "length ps \<le> length (dvel d)"
    by (auto intro: upt_below)
  from displace_eq [OF l, of h] d have t: "temp = spec_displace ps d h" by auto
  from a obtain acc where "accelLoop (forceFunc temp) temp [0..<length (forceFunc temp)]
                   (replicate (length (forceFunc temp)) (0, 0)) = Inr acc" ..
  from accelLoop_bounds [OF this] have "length (forceFunc temp) \<le> length temp"
    by (rule upt_below)
  with t l have f: "length (forceFunc (spec_displace ps d h)) \<le> length ps"
    by (simp add: length_spec_displace)
  from evaluate_eq [of ps d forceFunc h] l f assms
  have "out = spec_derivative forceFunc (spec_displace ps d h)"
    by simp
  with l f show ?thesis by simp
qed

lemma updateLoop_returns:
  assumes "updateLoop k1 k2 k3 k4 dt idx ps = Inr ps'" and "distinct idx"
    and "\<forall>i\<in>set idx. i < length ps"
  shows "\<forall>j. ps' ! j =
              (if j \<in> set idx \<and> \<not> fixed (ps ! j)
               then (ps ! j)\<lparr>position := vadd (position (ps ! j))
                                 (vmul (rk4 (dpos k1 ! j) (dpos k2 ! j) (dpos k3 ! j) (dpos k4 ! j)) dt),
                              velocity := vadd (velocity (ps ! j))
                                 (vmul (rk4 (dvel k1 ! j) (dvel k2 ! j) (dvel k3 ! j) (dvel k4 ! j)) dt),
                              acceleration := rk4 (dvel k1 ! j) (dvel k2 ! j) (dvel k3 ! j) (dvel k4 ! j)\<rparr>
               else ps ! j)"
  using assms
proof (induction idx arbitrary: ps)
  case Nil
  then show ?case by simp
next
  case (Cons i idx)
  from Cons.prems have d: "distinct idx" and ni: "i \<notin> set idx" and il: "i < length ps"
    and b: "\<forall>i\<in>set idx. i < length ps"
    by simp_all
  show ?case
  proof (cases "fixed (ps ! i)")
    case True
    with Cons.prems(1) have "updateLoop k1 k2 k3 k4 dt idx ps = Inr ps'" by simp
    from Cons.IH [OF this d b] True show ?thesis by auto
  next
    case False
    let ?dxdt = "rk4 (dpos k1 ! i) (dpos k2 ! i) (dpos k3 ! i) (dpos k4 ! i)"
    let ?dvdt = "rk4 (dvel k1 ! i) (dvel k2 ! i) (dvel k3 ! i) (dvel k4 ! i)"
    let ?ps1 = "ps[i := (ps ! i)\<lparr>position := vadd (position (ps ! i)) (vmul ?dxdt dt),
                                  velocity := vadd (velocity (ps ! i)) (vmul ?dvdt dt),
                                  acceleration := ?dvdt\<rparr>]"
    from False Cons.prems(1) have r: "updateLoop k1 k2 k3 k4 dt idx ?ps1 = Inr ps'"
      by (auto simp: Let_def split: if_splits)
    have b1: "\<forall>i\<in>set idx. i < length ?ps1" using b by simp
    note n = Cons.IH [OF r d b1]
    show ?thesis
    proof
      fix j
      show "ps' ! j =
              (if j \<in> set (i # idx) \<and> \<not> fixed (ps ! j)
               then (ps ! j)\<lparr>position := vadd (position (ps ! j))
                                 (vmul (rk4 (dpos k1 ! j) (dpos k2 ! j) (dpos k3 ! j) (dpos k4 ! j)) dt),
                              velocity := vadd (velocity (ps ! j))
                                 (vmul (rk4 (dvel k1 ! j) (dvel k2 ! j) (dvel k3 ! j) (dvel k4 ! j)) dt),
                              acceleration := rk4 (dvel k1 ! j) (dvel k2 ! j) (dvel k3 ! j) (dvel k4 ! j)\<rparr>
               else ps ! j)"
      proof (cases "j = i")
        case True
        with n ni il False show ?thesis by simp
      next
        case False
        with n show ?thesis by simp
      qed
    qed
  qed
qed

lemma spec_displace_keeps:
  assumes "length ps \<le> length (dpos k)" and "length ps \<le> length (dvel k)"
  shows "length (spec_displace ps k h) = length ps \<and>
         (\<forall>i<length ps. fixed (spec_displace ps k h ! i) = fixed (ps ! i) \<and>
                         mass (spec_displace ps k h ! i) = mass (ps ! i))"
  using assms by (simp add: spec_displace_def)

lemma integrate_anchoredPair:
  "integrate anchoredPair anchorPull 1 = Inr anchoredPairAfter"
  by (simp add: integrate_def evaluate_def displace_def initialState_def anchoredPair_def
      anchoredPairAfter_def anchorPull_def body_def Let_def upt_rec rk4_def vadd_def vsub_def
      vmul_def vdiv_def numeral_2_eq_2)

section \<open>The Runge-Kutta step\<close>

text \<open>
  C6. When the force function returns one force for each particle of a snapshot,
  \<open>integrate\<close> returns, and it moves every particle that is not fixed by \<open>dt\<close> times the
  weighted average \<open>(k1 + 2 k2 + 2 k3 + k4) / 6\<close>, in position and in velocity, where
  \<open>k1\<close> .. \<open>k4\<close> are the derivatives (velocity, force / mass) at the snapshots displaced
  from the initial state by 0, \<open>dt / 2 * k1\<close>, \<open>dt / 2 * k2\<close> and \<open>dt * k3\<close>. The
  stages are functions of the particle vector before the step: \<open>evaluate\<close> works on a
  copy and returns a derivative only.
\<close>

theorem integrate_rk4:
  assumes "\<And>qs. length qs = length ps \<Longrightarrow> length (forceFunc qs) = length ps"
  shows "\<exists>ps'. integrate ps forceFunc dt = Inr ps' \<and> length ps' = length ps \<and>
           (\<forall>i<length ps. \<not> fixed (ps ! i) \<longrightarrow>
              position (ps' ! i) =
                vadd (position (ps ! i)) (vmul (spec_average dpos forceFunc ps dt i) dt) \<and>
              velocity (ps' ! i) =
                vadd (velocity (ps ! i)) (vmul (spec_average dvel forceFunc ps dt i) dt))"
proof -
  let ?n = "length ps"
  let ?k0 = "\<lparr>dpos = replicate ?n (0, 0), dvel = replicate ?n (0, 0)\<rparr>"
  let ?k1 = "spec_k1 forceFunc ps dt"
  let ?k2 = "spec_k2 forceFunc ps dt"
  let ?k3 = "spec_k3 forceFunc ps dt"
  let ?k4 = "spec_k4 forceFunc ps dt"
  have f: "\<And>qs. length qs = ?n \<Longrightarrow> length (forceFunc qs) = length qs"
    using assms by simp
  have h0: "(0.0::real) = 0" and h: "dt * 0.5 = dt / 2"
    by simp_all
  have e1: "evaluate (initialState ps) 0 ?k0 forceFunc ps = Inr ?k1"
    using evaluate_eq [of ps ?k0 forceFunc 0] assms
    by (simp add: spec_displace_zero spec_k1_def)
  have l1: "length (dpos ?k1) = ?n \<and> length (dvel ?k1) = ?n"
    unfolding spec_k1_def by (rule spec_derivative_lengths) (rule f, simp)
  have s2: "length (spec_displace ps ?k1 (dt / 2)) = ?n"
    using l1 by (simp add: length_spec_displace)
  have e2: "evaluate (initialState ps) (dt / 2) ?k1 forceFunc ps = Inr ?k2"
    using evaluate_eq [of ps ?k1 forceFunc "dt / 2"] l1 assms [OF s2]
    by (simp add: spec_k2_def)
  have l2: "length (dpos ?k2) = ?n \<and> length (dvel ?k2) = ?n"
    unfolding spec_k2_def
    using spec_derivative_lengths [of forceFunc "spec_displace ps ?k1 (dt / 2)"] f [OF s2] s2 by simp
  have s3: "length (spec_displace ps ?k2 (dt / 2)) = ?n"
    using l2 by (simp add: length_spec_displace)
  have e3: "evaluate (initialState ps) (dt / 2) ?k2 forceFunc ps = Inr ?k3"
    using evaluate_eq [of ps ?k2 forceFunc "dt / 2"] l2 assms [OF s3]
    by (simp add: spec_k3_def)
  have l3: "length (dpos ?k3) = ?n \<and> length (dvel ?k3) = ?n"
    unfolding spec_k3_def
    using spec_derivative_lengths [of forceFunc "spec_displace ps ?k2 (dt / 2)"] f [OF s3] s3 by simp
  have s4: "length (spec_displace ps ?k3 dt) = ?n"
    using l3 by (simp add: length_spec_displace)
  have e4: "evaluate (initialState ps) dt ?k3 forceFunc ps = Inr ?k4"
    using evaluate_eq [of ps ?k3 forceFunc dt] l3 assms [OF s4]
    by (simp add: spec_k4_def)
  have l4: "length (dpos ?k4) = ?n \<and> length (dvel ?k4) = ?n"
    unfolding spec_k4_def
    using spec_derivative_lengths [of forceFunc "spec_displace ps ?k3 dt"] f [OF s4] s4 by simp
  have i: "integrate ps forceFunc dt = updateLoop ?k1 ?k2 ?k3 ?k4 dt [0..<?n] ps"
    unfolding integrate_def Let_def h0 h by (simp add: e1 e2 e3 e4)
  have pre: "\<forall>i\<in>set [0..<?n]. i < length ps \<and> i < length (dpos ?k1) \<and> i < length (dpos ?k2)
            \<and> i < length (dpos ?k3) \<and> i < length (dpos ?k4) \<and> i < length (dvel ?k1)
            \<and> i < length (dvel ?k2) \<and> i < length (dvel ?k3) \<and> i < length (dvel ?k4)"
    using l1 l2 l3 l4 by simp
  from updateLoop_char [OF distinct_upt pre, of dt] obtain ps' where
    r: "updateLoop ?k1 ?k2 ?k3 ?k4 dt [0..<?n] ps = Inr ps'" and l: "length ps' = ?n"
    and n: "\<forall>j. ps' ! j =
              (if j \<in> set [0..<?n] \<and> \<not> fixed (ps ! j)
               then (ps ! j)\<lparr>position := vadd (position (ps ! j))
                                 (vmul (rk4 (dpos ?k1 ! j) (dpos ?k2 ! j) (dpos ?k3 ! j) (dpos ?k4 ! j)) dt),
                              velocity := vadd (velocity (ps ! j))
                                 (vmul (rk4 (dvel ?k1 ! j) (dvel ?k2 ! j) (dvel ?k3 ! j) (dvel ?k4 ! j)) dt),
                              acceleration := rk4 (dvel ?k1 ! j) (dvel ?k2 ! j) (dvel ?k3 ! j) (dvel ?k4 ! j)\<rparr>
               else ps ! j)"
    by blast
  have "\<forall>i<?n. \<not> fixed (ps ! i) \<longrightarrow>
              position (ps' ! i) =
                vadd (position (ps ! i)) (vmul (spec_average dpos forceFunc ps dt i) dt) \<and>
              velocity (ps' ! i) =
                vadd (velocity (ps ! i)) (vmul (spec_average dvel forceFunc ps dt i) dt)"
    using n by (simp add: spec_average_def rk4_def)
  with i r l show ?thesis by simp
qed

theorem integrate_rk4_witness:
  "length (unitForce twoBodies) = length twoBodies \<and>
   (\<exists>ps'. integrate twoBodies unitForce 1 = Inr ps' \<and> length ps' = length twoBodies \<and>
      \<not> fixed (twoBodies ! 0) \<and>
      position (ps' ! 0) =
        vadd (position (twoBodies ! 0)) (vmul (spec_average dpos unitForce twoBodies 1 0) 1) \<and>
      velocity (ps' ! 0) =
        vadd (velocity (twoBodies ! 0)) (vmul (spec_average dvel unitForce twoBodies 1 0) 1) \<and>
      \<not> fixed (twoBodies ! 1) \<and>
      position (ps' ! 1) =
        vadd (position (twoBodies ! 1)) (vmul (spec_average dpos unitForce twoBodies 1 1) 1) \<and>
      velocity (ps' ! 1) =
        vadd (velocity (twoBodies ! 1)) (vmul (spec_average dvel unitForce twoBodies 1 1) 1))"
proof -
  have "\<And>qs. length qs = length twoBodies \<Longrightarrow> length (unitForce qs) = length twoBodies"
    by (simp add: unitForce_def)
  from integrate_rk4 [of twoBodies unitForce 1, OF this] obtain ps' where
    "integrate twoBodies unitForce 1 = Inr ps'" "length ps' = length twoBodies"
    "\<forall>i<length twoBodies. \<not> fixed (twoBodies ! i) \<longrightarrow>
       position (ps' ! i) =
         vadd (position (twoBodies ! i)) (vmul (spec_average dpos unitForce twoBodies 1 i) 1) \<and>
       velocity (ps' ! i) =
         vadd (velocity (twoBodies ! i)) (vmul (spec_average dvel unitForce twoBodies 1 i) 1)"
    by blast
  moreover have "\<not> fixed (twoBodies ! 0)" "\<not> fixed (twoBodies ! 1)" "length twoBodies = 2"
    by (simp_all add: twoBodies_def body_def)
  ultimately show ?thesis
    by (auto simp: unitForce_def)
qed

text \<open>
  C7. After \<open>integrate\<close> has returned, the vector has its length and every fixed particle
  has the position and the velocity it had, for any \<open>dt\<close> and any force function. The
  four calls of \<open>evaluate\<close> have returned the derivative that the force function gives at
  the four snapshots; every snapshot holds all the particles, the fixed ones among them,
  each with its flag and its mass; and the particles that are not fixed have moved by
  the average of these four derivatives. What the force function returns for a snapshot
  that holds the fixed particles is what moves the others.
\<close>

theorem integrate_fixed:
  assumes "integrate ps forceFunc dt = Inr ps'"
  shows "length ps' = length ps \<and>
         (\<forall>i<length ps. fixed (ps ! i) \<longrightarrow>
            position (ps' ! i) = position (ps ! i) \<and> velocity (ps' ! i) = velocity (ps ! i)) \<and>
         evaluate (initialState ps) 0.0
             \<lparr>dpos = replicate (length ps) (0, 0), dvel = replicate (length ps) (0, 0)\<rparr> forceFunc ps
           = Inr (spec_derivative forceFunc (spec_snapshots forceFunc ps dt ! 0)) \<and>
         evaluate (initialState ps) (dt * 0.5)
             (spec_derivative forceFunc (spec_snapshots forceFunc ps dt ! 0)) forceFunc ps
           = Inr (spec_derivative forceFunc (spec_snapshots forceFunc ps dt ! 1)) \<and>
         evaluate (initialState ps) (dt * 0.5)
             (spec_derivative forceFunc (spec_snapshots forceFunc ps dt ! 1)) forceFunc ps
           = Inr (spec_derivative forceFunc (spec_snapshots forceFunc ps dt ! 2)) \<and>
         evaluate (initialState ps) dt
             (spec_derivative forceFunc (spec_snapshots forceFunc ps dt ! 2)) forceFunc ps
           = Inr (spec_derivative forceFunc (spec_snapshots forceFunc ps dt ! 3)) \<and>
         (\<forall>S\<in>set (spec_snapshots forceFunc ps dt).
            length S = length ps \<and>
            (\<forall>i<length ps. fixed (S ! i) = fixed (ps ! i) \<and> mass (S ! i) = mass (ps ! i))) \<and>
         (\<forall>i<length ps. \<not> fixed (ps ! i) \<longrightarrow>
            position (ps' ! i) =
              vadd (position (ps ! i)) (vmul (spec_average dpos forceFunc ps dt i) dt) \<and>
            velocity (ps' ! i) =
              vadd (velocity (ps ! i)) (vmul (spec_average dvel forceFunc ps dt i) dt))"
proof -
  let ?n = "length ps"
  let ?k0 = "\<lparr>dpos = replicate ?n (0, 0), dvel = replicate ?n (0, 0)\<rparr>"
  let ?k1 = "spec_k1 forceFunc ps dt"
  let ?k2 = "spec_k2 forceFunc ps dt"
  let ?k3 = "spec_k3 forceFunc ps dt"
  let ?k4 = "spec_k4 forceFunc ps dt"
  have h0: "(0.0::real) = 0" and h: "dt * 0.5 = dt / 2"
    by simp_all
  from assms obtain k1 k2 k3 k4 where
    e1: "evaluate (initialState ps) 0 ?k0 forceFunc ps = Inr k1"
    and e2: "evaluate (initialState ps) (dt / 2) k1 forceFunc ps = Inr k2"
    and e3: "evaluate (initialState ps) (dt / 2) k2 forceFunc ps = Inr k3"
    and e4: "evaluate (initialState ps) dt k3 forceFunc ps = Inr k4"
    and u: "updateLoop k1 k2 k3 k4 dt [0..<?n] ps = Inr ps'"
    unfolding integrate_def Let_def h0 h by (auto split: sum.splits)
  from evaluate_returns [OF e1] have k1: "k1 = ?k1"
    by (simp add: spec_displace_zero spec_k1_def)
  from evaluate_returns [OF e2] have l1: "?n \<le> length (dpos ?k1)" "?n \<le> length (dvel ?k1)"
    and k2: "k2 = ?k2"
    unfolding k1 by (simp_all add: spec_k2_def)
  from evaluate_returns [OF e3] have l2: "?n \<le> length (dpos ?k2)" "?n \<le> length (dvel ?k2)"
    and k3: "k3 = ?k3"
    unfolding k2 by (simp_all add: spec_k3_def)
  from evaluate_returns [OF e4] have l3: "?n \<le> length (dpos ?k3)" "?n \<le> length (dvel ?k3)"
    and k4: "k4 = ?k4"
    unfolding k3 by (simp_all add: spec_k4_def)
  from updateLoop_fixed [OF u]
  have 1: "length ps' = ?n" and 2: "\<forall>j. fixed (ps ! j) \<longrightarrow> ps' ! j = ps ! j"
    by simp_all
  have s0: "spec_snapshots forceFunc ps dt ! 0 = ps"
    and s1: "spec_snapshots forceFunc ps dt ! 1 = spec_displace ps ?k1 (dt / 2)"
    and s2: "spec_snapshots forceFunc ps dt ! 2 = spec_displace ps ?k2 (dt / 2)"
    and s3: "spec_snapshots forceFunc ps dt ! 3 = spec_displace ps ?k3 dt"
    by (simp_all add: spec_snapshots_def numeral_3_eq_3)
  have 3: "evaluate (initialState ps) 0.0 ?k0 forceFunc ps
             = Inr (spec_derivative forceFunc (spec_snapshots forceFunc ps dt ! 0))"
    unfolding h0 s0 using e1 k1 by (simp add: spec_k1_def)
  have 4: "evaluate (initialState ps) (dt * 0.5)
             (spec_derivative forceFunc (spec_snapshots forceFunc ps dt ! 0)) forceFunc ps
           = Inr (spec_derivative forceFunc (spec_snapshots forceFunc ps dt ! 1))"
    unfolding h s0 s1 using e2 k1 k2 by (simp add: spec_k1_def spec_k2_def)
  have 5: "evaluate (initialState ps) (dt * 0.5)
             (spec_derivative forceFunc (spec_snapshots forceFunc ps dt ! 1)) forceFunc ps
           = Inr (spec_derivative forceFunc (spec_snapshots forceFunc ps dt ! 2))"
    unfolding h s1 s2 using e3 k2 k3 by (simp add: spec_k2_def spec_k3_def)
  have 6: "evaluate (initialState ps) dt
             (spec_derivative forceFunc (spec_snapshots forceFunc ps dt ! 2)) forceFunc ps
           = Inr (spec_derivative forceFunc (spec_snapshots forceFunc ps dt ! 3))"
    unfolding s2 s3 using e4 k3 k4 by (simp add: spec_k3_def spec_k4_def)
  have 7: "\<forall>S\<in>set (spec_snapshots forceFunc ps dt).
            length S = ?n \<and>
            (\<forall>i<?n. fixed (S ! i) = fixed (ps ! i) \<and> mass (S ! i) = mass (ps ! i))"
    using spec_displace_keeps [OF l1, of "dt / 2"] spec_displace_keeps [OF l2, of "dt / 2"]
      spec_displace_keeps [OF l3, of dt]
    by (simp add: spec_snapshots_def)
  have b: "\<forall>i\<in>set [0..<?n]. i < length ps" by simp
  note n = updateLoop_returns [OF u distinct_upt b]
  have 8: "\<forall>i<?n. \<not> fixed (ps ! i) \<longrightarrow>
              position (ps' ! i) =
                vadd (position (ps ! i)) (vmul (spec_average dpos forceFunc ps dt i) dt) \<and>
              velocity (ps' ! i) =
                vadd (velocity (ps ! i)) (vmul (spec_average dvel forceFunc ps dt i) dt)"
    using n unfolding k1 k2 k3 k4 by (simp add: spec_average_def rk4_def)
  from 1 2 3 4 5 6 7 8 show ?thesis by simp
qed

theorem integrate_fixed_witness:
  "integrate anchoredPair anchorPull 1 = Inr anchoredPairAfter \<and>
   length anchoredPairAfter = length anchoredPair \<and>
   fixed (anchoredPair ! 0) \<and>
   position (anchoredPairAfter ! 0) = position (anchoredPair ! 0) \<and>
   velocity (anchoredPairAfter ! 0) = velocity (anchoredPair ! 0) \<and>
   evaluate (initialState anchoredPair) (1 * 0.5)
       (spec_derivative anchorPull (spec_snapshots anchorPull anchoredPair 1 ! 0)) anchorPull
       anchoredPair
     = Inr (spec_derivative anchorPull (spec_snapshots anchorPull anchoredPair 1 ! 1)) \<and>
   length (spec_snapshots anchorPull anchoredPair 1 ! 1) = length anchoredPair \<and>
   fixed (spec_snapshots anchorPull anchoredPair 1 ! 1 ! 0) = fixed (anchoredPair ! 0) \<and>
   mass (spec_snapshots anchorPull anchoredPair 1 ! 1 ! 0) = mass (anchoredPair ! 0) \<and>
   \<not> fixed (anchoredPair ! 1) \<and>
   position (anchoredPairAfter ! 1) =
     vadd (position (anchoredPair ! 1)) (vmul (spec_average dpos anchorPull anchoredPair 1 1) 1) \<and>
   velocity (anchoredPairAfter ! 1) =
     vadd (velocity (anchoredPair ! 1)) (vmul (spec_average dvel anchorPull anchoredPair 1 1) 1) \<and>
   position (anchoredPairAfter ! 1) \<noteq> position (anchoredPair ! 1)"
proof -
  have f: "fixed (anchoredPair ! 0)" "\<not> fixed (anchoredPair ! 1)"
    and l: "0 < length anchoredPair" "1 < length anchoredPair"
    by (simp_all add: anchoredPair_def body_def)
  have m: "spec_snapshots anchorPull anchoredPair 1 ! 1
             \<in> set (spec_snapshots anchorPull anchoredPair 1)"
    by (rule nth_mem) (simp add: spec_snapshots_def)
  have p: "position (anchoredPairAfter ! 1) \<noteq> position (anchoredPair ! 1)"
    by (simp add: anchoredPair_def anchoredPairAfter_def body_def)
  note t = integrate_fixed [OF integrate_anchoredPair]
  from t have a: "length anchoredPairAfter = length anchoredPair" by (rule conjunct1)
  from t have b: "\<forall>i<length anchoredPair. fixed (anchoredPair ! i) \<longrightarrow>
              position (anchoredPairAfter ! i) = position (anchoredPair ! i) \<and>
              velocity (anchoredPairAfter ! i) = velocity (anchoredPair ! i)"
    by blast
  from t have c: "evaluate (initialState anchoredPair) (1 * 0.5)
       (spec_derivative anchorPull (spec_snapshots anchorPull anchoredPair 1 ! 0)) anchorPull
       anchoredPair
     = Inr (spec_derivative anchorPull (spec_snapshots anchorPull anchoredPair 1 ! 1))"
    by blast
  from t have d: "\<forall>S\<in>set (spec_snapshots anchorPull anchoredPair 1).
            length S = length anchoredPair \<and>
            (\<forall>i<length anchoredPair.
               fixed (S ! i) = fixed (anchoredPair ! i) \<and> mass (S ! i) = mass (anchoredPair ! i))"
    by blast
  from t have e: "\<forall>i<length anchoredPair. \<not> fixed (anchoredPair ! i) \<longrightarrow>
            position (anchoredPairAfter ! i) =
              vadd (position (anchoredPair ! i)) (vmul (spec_average dpos anchorPull anchoredPair 1 i) 1) \<and>
            velocity (anchoredPairAfter ! i) =
              vadd (velocity (anchoredPair ! i)) (vmul (spec_average dvel anchorPull anchoredPair 1 i) 1)"
    by blast
  from d m l(1) have g: "length (spec_snapshots anchorPull anchoredPair 1 ! 1) = length anchoredPair \<and>
       fixed (spec_snapshots anchorPull anchoredPair 1 ! 1 ! 0) = fixed (anchoredPair ! 0) \<and>
       mass (spec_snapshots anchorPull anchoredPair 1 ! 1 ! 0) = mass (anchoredPair ! 0)"
    by blast
  from b f(1) l(1) have b0: "position (anchoredPairAfter ! 0) = position (anchoredPair ! 0) \<and>
       velocity (anchoredPairAfter ! 0) = velocity (anchoredPair ! 0)"
    by blast
  from e f(2) l(2) have e1: "position (anchoredPairAfter ! 1) =
       vadd (position (anchoredPair ! 1)) (vmul (spec_average dpos anchorPull anchoredPair 1 1) 1) \<and>
     velocity (anchoredPairAfter ! 1) =
       vadd (velocity (anchoredPair ! 1)) (vmul (spec_average dvel anchorPull anchoredPair 1 1) 1)"
    by blast
  from integrate_anchoredPair a f b0 c g e1 p show ?thesis by blast
qed

section \<open>Particles of mass zero or less\<close>

text \<open>
  C8, as stated, fails: a particle of mass \<open>- 1\<close> is integrated like any other, and no
  error comes back.
\<close>

theorem integrate_negative_mass_counterexample:
  "mass negativeBody \<le> 0 \<and>
   integrate [negativeBody] unitForce 1 =
     Inr [\<lparr>position = (- (1 / 2), 0), velocity = (- 1, 0), acceleration = (- 1, 0),
           mass = - 1, fixed = False\<rparr>]"
  by (simp add: integrate_def evaluate_def displace_def initialState_def negativeBody_def
      unitForce_def body_def Let_def upt_rec rk4_def vadd_def vmul_def vdiv_def)

text \<open>
  C8, amended. \<open>evaluate\<close> does not look at the sign of a mass: given a derivative and
  forces of one entry for each particle it returns a derivative, and the acceleration of
  every particle of mass other than 0 is its force divided by its mass, also where the
  mass is negative.
\<close>

theorem evaluate_no_mass_check:
  assumes "length (dpos d) = length ps" and "length (dvel d) = length ps"
    and "length (forceFunc (spec_displace ps d dt)) = length ps"
  shows "\<exists>out. evaluate (initialState ps) dt d forceFunc ps = Inr out \<and>
           length (dvel out) = length ps \<and>
           (\<forall>i<length ps. mass (ps ! i) \<noteq> 0 \<longrightarrow>
              dvel out ! i = vdiv (forceFunc (spec_displace ps d dt) ! i) (mass (ps ! i)))"
proof -
  let ?snap = "spec_displace ps d dt"
  have e: "evaluate (initialState ps) dt d forceFunc ps = Inr (spec_derivative forceFunc ?snap)"
    using assms by (simp add: evaluate_eq)
  have l: "length ?snap = length ps"
    using assms by (simp add: length_spec_displace)
  have m: "\<forall>i<length ps. mass (?snap ! i) = mass (ps ! i)"
    using assms by (simp add: spec_displace_def)
  have "\<forall>i<length ps. dvel (spec_derivative forceFunc ?snap) ! i
          = vdiv (forceFunc ?snap ! i) (mass (ps ! i))"
    using assms(3) l m by (simp add: spec_derivative_def)
  with e assms(3) l show ?thesis
    by (simp add: spec_derivative_def)
qed

theorem evaluate_no_mass_check_witness:
  "mass ([negativeBody] ! 0) \<le> 0 \<and> mass ([negativeBody] ! 0) \<noteq> 0 \<and>
   (\<exists>out. evaluate (initialState [negativeBody]) 1 \<lparr>dpos = [(0, 0)], dvel = [(0, 0)]\<rparr>
             unitForce [negativeBody] = Inr out \<and>
          length (dvel out) = length [negativeBody] \<and>
          dvel out ! 0 =
            vdiv (unitForce (spec_displace [negativeBody] \<lparr>dpos = [(0, 0)], dvel = [(0, 0)]\<rparr> 1) ! 0)
              (mass ([negativeBody] ! 0)))"
  using evaluate_no_mass_check [of "\<lparr>dpos = [(0, 0)], dvel = [(0, 0)]\<rparr>" "[negativeBody]" unitForce 1]
  by (simp add: unitForce_def spec_displace_def negativeBody_def body_def)

section \<open>Termination of the insertion\<close>

lemma childBoundaries_halfSize:
  "cb \<in> set (childBoundaries_fl fl b) \<Longrightarrow> halfSize cb = halve fl (halfSize b)"
  by (auto simp: childBoundaries_fl_def halve_def Let_def)

lemma halve_funpow_Suc: "(halve fl ^^ k) (halve fl h) = (halve fl ^^ Suc k) h"
  by (simp add: funpow_swap1)

lemma separating_box:
  assumes "separating fl store (halfSize b)"
    and "p < length store" and "q < length store" and "p \<noteq> q"
    and "contains_fl fl b (position (store ! p))"
  shows "\<not> contains_fl fl b (position (store ! q))"
proof -
  have "b = \<lparr>center = center b, halfSize = halfSize b\<rparr>" by simp
  with assms show ?thesis unfolding separating_def by metis
qed

lemma tryChildren_regular:
  assumes "\<forall>c\<in>set cs. S c \<and> (\<exists>ok c'. ins c = Some (ok, c') \<and> S c' \<and> boundary c' = boundary c \<and>
             stored c' \<subseteq> insert p (stored c))"
  shows "\<exists>ok cs'. tryChildren ins cs = Some (ok, cs') \<and> (\<forall>c'\<in>set cs'. S c') \<and>
           map boundary cs' = map boundary cs \<and>
           (\<Union>c'\<in>set cs'. stored c') \<subseteq> insert p (\<Union>c\<in>set cs. stored c)"
  using assms
proof (induction cs)
  case Nil
  then show ?case by auto
next
  case (Cons c cs)
  from Cons.prems obtain ok c' where sc: "S c" and i: "ins c = Some (ok, c')" and sc': "S c'"
    and bc: "boundary c' = boundary c" and st: "stored c' \<subseteq> insert p (stored c)"
    by auto
  from Cons.prems have rest: "\<forall>c\<in>set cs. S c" by simp
  show ?case
  proof (cases ok)
    case True
    with i have "tryChildren ins (c # cs) = Some (True, c' # cs)" by simp
    with sc' bc st rest show ?thesis by auto
  next
    case False
    from Cons.IH Cons.prems obtain ok2 cs' where
      r: "tryChildren ins cs = Some (ok2, cs')" and s: "\<forall>c'\<in>set cs'. S c'"
      and b: "map boundary cs' = map boundary cs"
      and u: "(\<Union>c'\<in>set cs'. stored c') \<subseteq> insert p (\<Union>c\<in>set cs. stored c)"
      by auto
    from False i r have "tryChildren ins (c # cs) = Some (ok2, c' # cs')" by simp
    with sc' bc st s b u show ?thesis by auto
  qed
qed

lemma insert_particle_regular:
  "regular fl store k t \<Longrightarrow> p < length store \<Longrightarrow> p \<notin> stored t \<Longrightarrow> 2 * k + 1 \<le> fuel \<Longrightarrow>
   \<exists>ok t'. insert_particle_fl fl fuel store t p = Some (ok, t') \<and>
           regular fl store k t' \<and> boundary t' = boundary t \<and> stored t' \<subseteq> insert p (stored t)"
proof (induction k arbitrary: t p fuel)
  case 0
  obtain b parts cs com tm leaf where t: "t = QuadTreeNode b parts cs com tm leaf"
    by (cases t)
  from "0.prems"(4) obtain n where fuel: "fuel = Suc n" by (cases fuel) auto
  from "0.prems"(1) have leaf: leaf and cs: "cs = []" and len: "length parts \<le> 1"
    and inb: "\<forall>q\<in>set parts. q < length store \<and> contains_fl fl b (position (store ! q))"
    and sep: "separating fl store (halfSize b)"
    unfolding t by (auto split: if_splits)
  show ?case
  proof (cases "contains_fl fl b (position (store ! p))")
    case False
    then have "insert_particle_fl fl fuel store t p = Some (False, t)"
      unfolding t fuel by simp
    with "0.prems"(1) show ?thesis by auto
  next
    case True
    have "parts = []"
    proof (rule ccontr)
      assume "parts \<noteq> []"
      then obtain q where q: "q \<in> set parts" by (cases parts) auto
      with inb have ql: "q < length store" and qc: "contains_fl fl b (position (store ! q))"
        by blast+
      from q "0.prems"(3) have "p \<noteq> q" unfolding t by auto
      from separating_box [OF sep "0.prems"(2) ql this True] qc show False by simp
    qed
    with True leaf cs sep "0.prems"(2) show ?thesis
      unfolding t fuel by (auto simp: MAX_PARTICLES_def)
  qed
next
  case (Suc k)
  obtain b parts cs com tm leaf where t: "t = QuadTreeNode b parts cs com tm leaf"
    by (cases t)
  from Suc.prems(4) obtain n where fuel: "fuel = Suc n" and n: "2 * k + 2 \<le> n"
    by (cases fuel) auto
  from Suc.prems(1) have sep: "separating fl store ((halve fl ^^ Suc k) (halfSize b))"
    unfolding t by simp
  show ?case
  proof (cases "contains_fl fl b (position (store ! p))")
    case False
    then have "insert_particle_fl fl fuel store t p = Some (False, t)"
      unfolding t fuel by simp
    with Suc.prems(1) show ?thesis by auto
  next
    case True
    show ?thesis
    proof (cases leaf)
      case False
      from Suc.prems(1) False have parts: "parts = []"
        and mb: "map boundary cs = childBoundaries_fl fl b"
        and rc: "\<forall>c\<in>set cs. regular fl store k c"
        unfolding t by auto
      have each: "\<forall>c\<in>set cs. regular fl store k c \<and>
              (\<exists>ok c'. insert_particle_fl fl n store c p = Some (ok, c') \<and>
                    regular fl store k c' \<and> boundary c' = boundary c \<and>
                    stored c' \<subseteq> insert p (stored c))"
      proof
        fix c assume c: "c \<in> set cs"
        with rc have r: "regular fl store k c" by blast
        have a: "p \<notin> stored c" using Suc.prems(3) c unfolding t by auto
        have "2 * k + 1 \<le> n" using n by simp
        from Suc.IH [OF r Suc.prems(2) a this] r
        show "regular fl store k c \<and>
              (\<exists>ok c'. insert_particle_fl fl n store c p = Some (ok, c') \<and>
                    regular fl store k c' \<and> boundary c' = boundary c \<and>
                    stored c' \<subseteq> insert p (stored c))"
          by blast
      qed
      from tryChildren_regular [of cs "regular fl store k" "\<lambda>c. insert_particle_fl fl n store c p" p,
          OF each]
      obtain ok cs' where
        r: "tryChildren (\<lambda>c. insert_particle_fl fl n store c p) cs = Some (ok, cs')"
        and s: "\<forall>c'\<in>set cs'. regular fl store k c'"
        and mb': "map boundary cs' = map boundary cs"
        and u: "(\<Union>c'\<in>set cs'. stored c') \<subseteq> insert p (\<Union>c\<in>set cs. stored c)"
        by blast
      have "insert_particle_fl fl fuel store t p = Some (ok, QuadTreeNode b parts cs' com tm leaf)"
        using True False r unfolding t fuel by simp
      moreover have "regular fl store (Suc k) (QuadTreeNode b parts cs' com tm leaf)"
        using False sep parts s mb mb' by simp
      moreover have "stored (QuadTreeNode b parts cs' com tm leaf) \<subseteq> insert p (stored t)"
        using u unfolding t by auto
      ultimately show ?thesis unfolding t by auto
    next
      case leaf: True
      from Suc.prems(1) leaf have cs: "cs = []" and len: "length parts \<le> 1"
        and inb: "\<forall>q\<in>set parts. q < length store \<and> contains_fl fl b (position (store ! q))"
        unfolding t by auto
      show ?thesis
      proof (cases parts)
        case Nil
        with True leaf cs sep Suc.prems(2) show ?thesis
          unfolding t fuel by (auto simp: MAX_PARTICLES_def)
      next
        case (Cons q rest)
        with len have parts: "parts = [q]" by simp
        from inb parts have ql: "q < length store" by simp
        from Suc.prems(3) parts have pq: "p \<noteq> q" unfolding t by auto
        from n obtain m where nm: "n = Suc m" and m: "2 * k + 1 \<le> m"
          by (cases n) auto
        let ?fresh = "map newNode (childBoundaries_fl fl b)"
        have fresh: "\<forall>c\<in>set ?fresh. regular fl store k c \<and> stored c = {}"
        proof
          fix c assume "c \<in> set ?fresh"
          then obtain cb where cb: "cb \<in> set (childBoundaries_fl fl b)" and c: "c = newNode cb"
            by auto
          have "separating fl store ((halve fl ^^ k) (halfSize cb))"
            using sep childBoundaries_halfSize [OF cb] halve_funpow_Suc [of k fl "halfSize b"]
            by simp
          then show "regular fl store k c \<and> stored c = {}"
            unfolding c by (simp add: newNode_def)
        qed
        have eachq: "\<forall>c\<in>set ?fresh. regular fl store k c \<and>
              (\<exists>ok c'. insert_particle_fl fl m store c q = Some (ok, c') \<and>
                    regular fl store k c' \<and> boundary c' = boundary c \<and>
                    stored c' \<subseteq> insert q (stored c))"
        proof
          fix c assume c: "c \<in> set ?fresh"
          with fresh have r: "regular fl store k c" and e: "stored c = {}" by blast+
          have a: "q \<notin> stored c" using e by simp
          from Suc.IH [OF r ql a m] r
          show "regular fl store k c \<and>
              (\<exists>ok c'. insert_particle_fl fl m store c q = Some (ok, c') \<and>
                    regular fl store k c' \<and> boundary c' = boundary c \<and>
                    stored c' \<subseteq> insert q (stored c))"
            by blast
        qed
        from tryChildren_regular [of ?fresh "regular fl store k"
            "\<lambda>c. insert_particle_fl fl m store c q" q, OF eachq]
        obtain ok1 cs1 where
          r1: "tryChildren (\<lambda>c. insert_particle_fl fl m store c q) ?fresh = Some (ok1, cs1)"
          and s1: "\<forall>c'\<in>set cs1. regular fl store k c'"
          and mb1: "map boundary cs1 = map boundary ?fresh"
          and u1: "(\<Union>c'\<in>set cs1. stored c') \<subseteq> insert q (\<Union>c\<in>set ?fresh. stored c)"
          by blast
        have "(\<Union>c\<in>set ?fresh. stored c) = {}" using fresh by auto
        with u1 have u1': "(\<Union>c'\<in>set cs1. stored c') \<subseteq> {q}" by simp
        have mb1': "map boundary cs1 = childBoundaries_fl fl b"
          using mb1 by (simp add: newNode_def comp_def)
        let ?node = "QuadTreeNode b [] cs1 com tm False"
        have sub: "subdivide_fl fl n store t = Some ?node"
          unfolding t nm parts using r1 by simp
        have each: "\<forall>c\<in>set cs1. regular fl store k c \<and>
              (\<exists>ok c'. insert_particle_fl fl m store c p = Some (ok, c') \<and>
                    regular fl store k c' \<and> boundary c' = boundary c \<and>
                    stored c' \<subseteq> insert p (stored c))"
        proof
          fix c assume c: "c \<in> set cs1"
          with s1 have r: "regular fl store k c" by blast
          have "stored c \<subseteq> {q}" using u1' c by blast
          with pq have a: "p \<notin> stored c" by auto
          from Suc.IH [OF r Suc.prems(2) a m] r
          show "regular fl store k c \<and>
              (\<exists>ok c'. insert_particle_fl fl m store c p = Some (ok, c') \<and>
                    regular fl store k c' \<and> boundary c' = boundary c \<and>
                    stored c' \<subseteq> insert p (stored c))"
            by blast
        qed
        from tryChildren_regular [of cs1 "regular fl store k"
            "\<lambda>c. insert_particle_fl fl m store c p" p, OF each]
        obtain ok2 cs2 where
          r2: "tryChildren (\<lambda>c. insert_particle_fl fl m store c p) cs1 = Some (ok2, cs2)"
          and s2: "\<forall>c'\<in>set cs2. regular fl store k c'"
          and mb2: "map boundary cs2 = map boundary cs1"
          and u2: "(\<Union>c'\<in>set cs2. stored c') \<subseteq> insert p (\<Union>c\<in>set cs1. stored c)"
          by blast
        have ins: "insert_particle_fl fl n store ?node p
                     = Some (ok2, QuadTreeNode b [] cs2 com tm False)"
          unfolding nm using True r2 by simp
        have "insert_particle_fl fl fuel store t p = Some (ok2, QuadTreeNode b [] cs2 com tm False)"
          using sub ins True leaf parts unfolding fuel t by (simp add: MAX_PARTICLES_def)
        moreover have "regular fl store (Suc k) (QuadTreeNode b [] cs2 com tm False)"
          using sep s2 mb2 mb1' by simp
        moreover have "stored (QuadTreeNode b [] cs2 com tm False) \<subseteq> insert p (stored t)"
          using u2 u1' unfolding t parts cs by auto
        ultimately show ?thesis unfolding t by auto
      qed
    qed
  qed
qed

lemma insertAll_regular:
  assumes fuel: "2 * k + 1 \<le> fuel"
  shows "regular fl store k t \<Longrightarrow> distinct idx \<Longrightarrow> set idx \<subseteq> {..<length store} \<Longrightarrow>
         stored t \<inter> set idx = {} \<Longrightarrow>
         \<exists>t'. insertAll_fl fl fuel store idx t = Some t' \<and> regular fl store k t'"
proof (induction idx arbitrary: t)
  case Nil
  then show ?case by simp
next
  case (Cons p idx)
  from Cons.prems have p: "p < length store" and pn: "p \<notin> set idx" and ps: "p \<notin> stored t"
    by auto
  from insert_particle_regular [OF Cons.prems(1) p ps fuel] obtain ok t1 where
    i: "insert_particle_fl fl fuel store t p = Some (ok, t1)" and r: "regular fl store k t1"
    and s1: "stored t1 \<subseteq> insert p (stored t)"
    by blast
  have "stored t1 \<inter> set idx = {}"
    using s1 Cons.prems(4) pn by auto
  with Cons.IH [OF r] Cons.prems(2,3) obtain t' where
    "insertAll_fl fl fuel store idx t1 = Some t'" "regular fl store k t'"
    by auto
  with i show ?case by auto
qed

lemma regular_leaves:
  "regular fl store k t \<Longrightarrow> \<forall>l\<in>set (leaves t). length (particles l) \<le> MAX_PARTICLES"
proof (induction t arbitrary: k)
  case (QuadTreeNode b parts cs com tm leaf)
  show ?case
  proof (cases leaf)
    case True
    with QuadTreeNode.prems show ?thesis by (simp add: MAX_PARTICLES_def)
  next
    case False
    with QuadTreeNode.prems have "\<forall>c\<in>set cs. regular fl store (k - 1) c" by simp
    with QuadTreeNode.IH have "\<forall>c\<in>set cs. \<forall>l\<in>set (leaves c). length (particles l) \<le> MAX_PARTICLES"
      by blast
    with False show ?thesis by auto
  qed
qed

lemma updateCenterOfMass_leaves:
  "map particles (leaves (updateCenterOfMass store t)) = map particles (leaves t)"
  by (cases t) (simp add: updateCenterOfMass_def Let_def split: prod.splits)

text \<open>
  With fuel for \<open>k\<close> subdivisions, \<open>build\<close> returns from a fresh root whose half-size is
  separating after \<open>k\<close> halvings.
\<close>

lemma build_separating:
  assumes "separating fl ps ((halve fl ^^ k) (halfSize b))" and "2 * k + 1 \<le> fuel"
  shows "\<exists>t. build_fl fl fuel ps (newNode b) = Some t \<and>
           (\<forall>l\<in>set (leaves t). length (particles l) \<le> MAX_PARTICLES)"
proof -
  have r0: "regular fl ps k (newNode b)" using assms(1) by (simp add: newNode_def)
  have "\<exists>t'. insertAll_fl fl fuel ps [0..<length ps] (newNode b) = Some t' \<and> regular fl ps k t'"
    by (rule insertAll_regular [OF assms(2) r0]) (auto simp: newNode_def)
  then obtain t0 where i: "insertAll_fl fl fuel ps [0..<length ps] (newNode b) = Some t0"
    and g: "regular fl ps k t0"
    by blast
  have "\<forall>x\<in>set (map particles (leaves t0)). length x \<le> MAX_PARTICLES"
    using regular_leaves [OF g] by simp
  then have "\<forall>x\<in>set (map particles (leaves (updateCenterOfMass ps t0))). length x \<le> MAX_PARTICLES"
    by (simp only: updateCenterOfMass_leaves)
  then have "\<forall>l\<in>set (leaves (updateCenterOfMass ps t0)). length (particles l) \<le> MAX_PARTICLES"
    by simp
  with i show ?thesis by (simp add: build_fl_def)
qed

text \<open>
  A box of half-size 0 is a single point in every rounding, and two particles at
  different positions do not both pass its test.
\<close>

lemma separating_zero:
  assumes "distinct (map position store)"
  shows "separating fl store 0"
  unfolding separating_def
proof (intro allI impI notI)
  fix c i j
  assume i: "i < length store" and j: "j < length store" and ne: "i \<noteq> j"
    and both: "contains_fl fl \<lparr>center = c, halfSize = 0\<rparr> (position (store ! i)) \<and>
               contains_fl fl \<lparr>center = c, halfSize = 0\<rparr> (position (store ! j))"
  from both have "position (store ! i) = (fl (fst c), fl (snd c))"
    and "position (store ! j) = (fl (fst c), fl (snd c))"
    by (auto simp: contains_fl_def intro: prod_eqI)
  then have "map position store ! i = map position store ! j"
    using i j by simp
  with assms i j have "i = j" by (simp add: nth_eq_iff_index_eq del: nth_map)
  with ne show False by simp
qed

text \<open>
  In exact arithmetic the side of a box halves with every subdivision and falls below
  the least distance between two of the particles.
\<close>

lemma halve_exact: "(halve (\<lambda>x. x) ^^ k) h = h / 2 ^ k"
  by (induction k) (simp_all add: halve_def)

lemma contains_not_apart:
  assumes "contains b u" and "contains b v" and "2 * halfSize b < gap"
  shows "\<not> apart gap u v"
  using assms by (auto simp: contains_fl_def apart_def)

lemma apart_sym: "apart e u v \<Longrightarrow> apart e v u"
  by (auto simp: apart_def abs_minus_commute)

lemma apart_mono: "apart e u v \<Longrightarrow> e' \<le> e \<Longrightarrow> apart e' u v"
  by (auto simp: apart_def)

lemma apart_one:
  assumes "finite A"
  shows "\<exists>gap>0. \<forall>v\<in>A. v \<noteq> u \<longrightarrow> apart gap u v"
  using assms
proof (induction A)
  case empty
  show ?case by (rule exI [of _ 1]) simp
next
  case (insert v A)
  then obtain g where g: "0 < g" "\<forall>w\<in>A. w \<noteq> u \<longrightarrow> apart g u w" by blast
  show ?case
  proof (cases "v = u")
    case True
    with g show ?thesis by auto
  next
    case False
    let ?d = "max \<bar>fst u - fst v\<bar> \<bar>snd u - snd v\<bar>"
    have d: "0 < ?d" using False by (cases u, cases v) auto
    have "apart ?d u v" by (auto simp: apart_def max_def)
    then have 1: "apart (min g ?d) u v" by (rule apart_mono) simp
    have 2: "\<forall>w\<in>A. w \<noteq> u \<longrightarrow> apart (min g ?d) u w"
    proof (intro ballI impI)
      fix w assume "w \<in> A" "w \<noteq> u"
      with g(2) have "apart g u w" by blast
      then show "apart (min g ?d) u w" by (rule apart_mono) simp
    qed
    from g(1) d 1 2 show ?thesis
      by (intro exI [of _ "min g ?d"]) auto
  qed
qed

lemma apart_all:
  assumes "finite A"
  shows "\<exists>gap>0. \<forall>u\<in>A. \<forall>v\<in>A. v \<noteq> u \<longrightarrow> apart gap u v"
  using assms
proof (induction A)
  case empty
  show ?case by (rule exI [of _ 1]) simp
next
  case (insert x A)
  then obtain g where g: "0 < g" "\<forall>u\<in>A. \<forall>v\<in>A. v \<noteq> u \<longrightarrow> apart g u v" by blast
  from apart_one [OF insert.hyps(1), of x] obtain h where
    h: "0 < h" "\<forall>v\<in>A. v \<noteq> x \<longrightarrow> apart h x v" by blast
  have "\<forall>u\<in>insert x A. \<forall>v\<in>insert x A. v \<noteq> u \<longrightarrow> apart (min g h) u v"
  proof (intro ballI impI)
    fix u v assume u: "u \<in> insert x A" and v: "v \<in> insert x A" and ne: "v \<noteq> u"
    consider "u = x" "v \<in> A" | "v = x" "u \<in> A" | "u \<in> A" "v \<in> A"
      using u v ne by auto
    then show "apart (min g h) u v"
    proof cases
      case 1
      with h(2) ne have "apart h u v" by auto
      then show ?thesis by (rule apart_mono) simp
    next
      case 2
      with h(2) ne have "apart h v u" by auto
      then have "apart h u v" by (rule apart_sym)
      then show ?thesis by (rule apart_mono) simp
    next
      case 3
      with g(2) ne have "apart g u v" by auto
      then show ?thesis by (rule apart_mono) simp
    qed
  qed
  with g(1) h(1) show ?case
    by (intro exI [of _ "min g h"]) auto
qed

lemma distinct_positions_apart:
  assumes "distinct (map position ps)"
  shows "\<exists>gap>0. \<forall>i<length ps. \<forall>j<length ps. i \<noteq> j \<longrightarrow>
           apart gap (position (ps ! i)) (position (ps ! j))"
proof -
  from apart_all [of "set (map position ps)"] obtain gap where
    g: "0 < gap" "\<forall>u\<in>set (map position ps). \<forall>v\<in>set (map position ps). v \<noteq> u \<longrightarrow> apart gap u v"
    by auto
  have "\<forall>i<length ps. \<forall>j<length ps. i \<noteq> j \<longrightarrow>
           apart gap (position (ps ! i)) (position (ps ! j))"
  proof (intro allI impI)
    fix i j assume i: "i < length ps" and j: "j < length ps" and ne: "i \<noteq> j"
    have "map position ps ! j \<noteq> map position ps ! i"
      using assms i j ne by (simp add: nth_eq_iff_index_eq del: nth_map)
    then have "position (ps ! j) \<noteq> position (ps ! i)" using i j by simp
    moreover have "position (ps ! i) \<in> set (map position ps)"
      "position (ps ! j) \<in> set (map position ps)"
      using i j by auto
    ultimately show "apart gap (position (ps ! i)) (position (ps ! j))"
      using g(2) by blast
  qed
  with g(1) show ?thesis by blast
qed

lemma budget_exists:
  fixes gap h :: real
  assumes "0 < gap"
  shows "\<exists>k::nat. h < gap * 2 ^ k"
proof -
  from real_arch_pow [of 2 "h / gap"] obtain k :: nat where "h / gap < 2 ^ k" by auto
  with assms have "h < gap * 2 ^ k" by (simp add: pos_divide_less_eq mult.commute)
  then show ?thesis ..
qed

lemma separating_exact:
  assumes "distinct (map position ps)"
  shows "\<exists>k. separating (\<lambda>x. x) ps ((halve (\<lambda>x. x) ^^ k) h)"
proof -
  from distinct_positions_apart [OF assms] obtain gap where
    gap: "0 < gap" and sep: "\<forall>i<length ps. \<forall>j<length ps. i \<noteq> j \<longrightarrow>
           apart gap (position (ps ! i)) (position (ps ! j))"
    by blast
  from budget_exists [OF gap, of "2 * h"] obtain k :: nat where
    k: "2 * h < gap * 2 ^ k" by blast
  then have small: "2 * (h / 2 ^ k) < gap" by (simp add: field_simps)
  have "separating (\<lambda>x. x) ps (h / 2 ^ k)"
    unfolding separating_def
  proof (intro allI impI notI)
    fix c i j
    assume i: "i < length ps" and j: "j < length ps" and ne: "i \<noteq> j"
      and both: "contains \<lparr>center = c, halfSize = h / 2 ^ k\<rparr> (position (ps ! i)) \<and>
                 contains \<lparr>center = c, halfSize = h / 2 ^ k\<rparr> (position (ps ! j))"
    have "\<not> apart gap (position (ps ! i)) (position (ps ! j))"
      by (rule contains_not_apart [of "\<lparr>center = c, halfSize = h / 2 ^ k\<rparr>"])
         (use both small in simp_all)
    with sep i j ne show False by blast
  qed
  then show ?thesis by (auto simp: halve_exact)
qed

text \<open>
  C10. For particles at pairwise distinct positions \<open>build\<close> returns from a fresh root
  with enough fuel, and every leaf of the tree it returns holds at most \<open>MAX_PARTICLES\<close>
  particles: the recursion of \<^verbatim>\<open>insert\<close> and \<^verbatim>\<open>subdivide\<close> ends. This holds in every
  rounding in which halving the half-size of the root again and again reaches 0, which
  binary32 does from every half-size (lemma \<open>halve_float_round_zero\<close>), and it holds in
  exact arithmetic. \<^verbatim>\<open>updateCenterOfMass\<close> has no recursion and no unbounded loop.
  Neither that the root boundary contains the particles nor that its half-size is
  positive needs to be assumed, and nothing is said of which particles the tree holds.
\<close>

theorem build_terminates:
  assumes "distinct (map position ps)"
    and "(\<exists>N. (halve fl ^^ N) (halfSize b) = 0) \<or> fl = (\<lambda>x. x)"
  shows "\<exists>fuel0. \<forall>fuel\<ge>fuel0. \<exists>t. build_fl fl fuel ps (newNode b) = Some t \<and>
           (\<forall>l\<in>set (leaves t). length (particles l) \<le> MAX_PARTICLES)"
proof -
  have "\<exists>k. separating fl ps ((halve fl ^^ k) (halfSize b))"
    using assms(2)
  proof
    assume "\<exists>N. (halve fl ^^ N) (halfSize b) = 0"
    then obtain N where "(halve fl ^^ N) (halfSize b) = 0" ..
    with separating_zero [OF assms(1), of fl]
    have "separating fl ps ((halve fl ^^ N) (halfSize b))" by simp
    then show ?thesis ..
  next
    assume "fl = (\<lambda>x. x)"
    with separating_exact [OF assms(1), of "halfSize b"] show ?thesis by simp
  qed
  then obtain k where k: "separating fl ps ((halve fl ^^ k) (halfSize b))" ..
  have "\<forall>fuel\<ge>2 * k + 1. \<exists>t. build_fl fl fuel ps (newNode b) = Some t \<and>
           (\<forall>l\<in>set (leaves t). length (particles l) \<le> MAX_PARTICLES)"
    using build_separating [OF k] by blast
  then show ?thesis ..
qed

theorem build_terminates_witness:
  "distinct (map position twoBodies) \<and>
   (\<exists>fuel0. \<forall>fuel\<ge>fuel0. \<exists>t. build fuel twoBodies (newNode (rootBoundary twoBodies)) = Some t \<and>
      (\<forall>l\<in>set (leaves t). length (particles l) \<le> MAX_PARTICLES)) \<and>
   distinct (map position closePair) \<and>
   (\<exists>N. (halve float_round ^^ N) (halfSize (rootBoundary_fl float_round closePair)) = 0) \<and>
   (\<exists>fuel0. \<forall>fuel\<ge>fuel0. \<exists>t.
      build_fl float_round fuel closePair (newNode (rootBoundary_fl float_round closePair))
        = Some t \<and>
      (\<forall>l\<in>set (leaves t). length (particles l) \<le> MAX_PARTICLES))"
proof -
  have d: "distinct (map position twoBodies)"
    by (simp add: twoBodies_def body_def)
  have c: "distinct (map position closePair)"
    by (simp add: closePair_def body_def)
  have h: "\<exists>N. (halve float_round ^^ N) (halfSize (rootBoundary_fl float_round closePair)) = 0"
    by (rule halve_float_round_zero)
  have 1: "\<exists>fuel0. \<forall>fuel\<ge>fuel0. \<exists>t.
      build fuel twoBodies (newNode (rootBoundary twoBodies)) = Some t \<and>
      (\<forall>l\<in>set (leaves t). length (particles l) \<le> MAX_PARTICLES)"
    by (rule build_terminates [OF d]) simp
  have 2: "\<exists>fuel0. \<forall>fuel\<ge>fuel0. \<exists>t.
      build_fl float_round fuel closePair (newNode (rootBoundary_fl float_round closePair))
        = Some t \<and>
      (\<forall>l\<in>set (leaves t). length (particles l) \<le> MAX_PARTICLES)"
    by (rule build_terminates [OF c]) (use h in blast)
  from d 1 c h 2 show ?thesis by blast
qed

section \<open>The root boundary\<close>

text \<open>
  In binary32, on two particles one step apart at 1, \<open>(1, 0)\<close> and \<open>(1 + 2 powi (- 23), 0)\<close>:
  the sum of the corners rounds to 2, so the root is centred at the first particle, and
  the second particle is on the right edge of the root, which accepts it. The right
  edge of each of the four quadrants rounds to 1, so that none of them accepts the
  second particle: \<^verbatim>\<open>insert\<close> returns \<^verbatim>\<open>false\<close> for it, and the tree that \<open>build\<close>
  returns does not hold it.
\<close>

lemma rootBoundary_closePair:
  "rootBoundary_fl float_round closePair = \<lparr>center = (1, 0), halfSize = 5033165 / 70368744177664\<rparr>"
  by (simp add: rootBoundary_fl_def findBounds_def closePair_def body_def vadd_fl_def vmul_fl_def
      float_0_6_def float_round_zero float_round_values)

lemma contains_closePair:
  "contains_fl float_round (rootBoundary_fl float_round closePair) (position (closePair ! 0))"
  "contains_fl float_round (rootBoundary_fl float_round closePair) (position (closePair ! 1))"
  "position (closePair ! 1) =
     (float_round (fst (center (rootBoundary_fl float_round closePair))
                   + halfSize (rootBoundary_fl float_round closePair)), 0)"
  unfolding rootBoundary_closePair
  by (simp_all add: closePair_def body_def contains_fl_def float_round_values)

lemma insert_closePair:
  "insert_particle_fl float_round 1 closePair (newNode (rootBoundary_fl float_round closePair)) 0
     = Some (True, closeLeaf)"
  "insert_particle_fl float_round 3 closePair closeLeaf 1 = Some (False, closeTree)"
  unfolding rootBoundary_closePair
  by (simp_all add: closePair_def closeLeaf_def closeTree_def eval_defs numeral_3_eq_3
      float_round_zero float_round_values)

lemma build_closePair:
  "build_fl float_round 3 closePair (newNode (rootBoundary_fl float_round closePair))
     = Some closeTree"
  "stored closeTree = {0}"
  unfolding rootBoundary_closePair
  by (simp_all add: closePair_def closeTree_def eval_defs numeral_3_eq_3 float_round_zero
      float_round_values)

text \<open>
  C5. The margin of the root boundary is a factor of the extent of the bounding box. For
  a single particle the extent is 0: the root boundary has half-size 0 and the particle
  is on its edge, on both sides, not strictly inside. Every value of this computation
  is 0 and is exact in binary32. (A particle on the edge of the root is one that the
  quadrants can miss, see \<open>insert_closePair\<close> above.)
\<close>

theorem rootBoundary_single_on_edge:
  "rootBoundary [body 0 0 1] = \<lparr>center = (0, 0), halfSize = 0\<rparr> \<and>
   \<not> fst (center (rootBoundary [body 0 0 1])) - halfSize (rootBoundary [body 0 0 1])
       < fst (position (body 0 0 1)) \<and>
   \<not> fst (position (body 0 0 1))
       < fst (center (rootBoundary [body 0 0 1])) + halfSize (rootBoundary [body 0 0 1])"
  by (simp add: rootBoundary_fl_def findBounds_def body_def vadd_fl_def vmul_fl_def)

section \<open>Index alignment of the forces\<close>

lemma twinLeaf_diverges: "insert_particle fuel twins twinLeaf (Suc 0) = None"
proof (induction fuel rule: less_induct)
  case (less fuel)
  show ?case
  proof (cases fuel)
    case 0
    then show ?thesis by simp
  next
    case (Suc n)
    show ?thesis
    proof (cases n)
      case 0
      with Suc show ?thesis
        by (simp add: twinLeaf_def twins_def body_def contains_fl_def MAX_PARTICLES_def)
    next
      case n: (Suc m)
      show ?thesis
      proof (cases m)
        case 0
        with Suc n show ?thesis
          by (simp add: twinLeaf_def twins_def body_def contains_fl_def MAX_PARTICLES_def
              childBoundaries_fl_def newNode_def vadd_fl_def Let_def)
      next
        case m: (Suc l)
        have sub: "subdivide n twins twinLeaf =
          Some (QuadTreeNode \<lparr>center = (0, 0), halfSize = 0\<rparr> []
                  [twinLeaf, newNode \<lparr>center = (0, 0), halfSize = 0\<rparr>,
                   newNode \<lparr>center = (0, 0), halfSize = 0\<rparr>,
                   newNode \<lparr>center = (0, 0), halfSize = 0\<rparr>] (0, 0) 0 False)"
          unfolding n m
          by (simp add: twinLeaf_def twins_def body_def contains_fl_def MAX_PARTICLES_def
              childBoundaries_fl_def newNode_def vadd_fl_def Let_def)
        have "m < fuel" using Suc n by simp
        from less.IH [OF this] have d: "insert_particle m twins twinLeaf (Suc 0) = None" .
        have "insert_particle n twins (QuadTreeNode \<lparr>center = (0, 0), halfSize = 0\<rparr> []
                  [twinLeaf, newNode \<lparr>center = (0, 0), halfSize = 0\<rparr>,
                   newNode \<lparr>center = (0, 0), halfSize = 0\<rparr>,
                   newNode \<lparr>center = (0, 0), halfSize = 0\<rparr>] (0, 0) 0 False) (Suc 0) = None"
          unfolding n using d by (simp add: twins_def body_def contains_fl_def)
        with sub show ?thesis
          unfolding Suc
          by (simp add: twinLeaf_def twins_def body_def contains_fl_def MAX_PARTICLES_def)
      qed
    qed
  qed
qed

lemma insertAll_twins:
  "insertAll fuel twins [0, Suc 0] (newNode \<lparr>center = (0, 0), halfSize = 0\<rparr>) = None"
proof (cases fuel)
  case 0
  then show ?thesis by simp
next
  case (Suc n)
  have "insert_particle (Suc n) twins (newNode \<lparr>center = (0, 0), halfSize = 0\<rparr>) 0
          = Some (True, twinLeaf)"
    by (simp add: newNode_def twinLeaf_def twins_def body_def contains_fl_def MAX_PARTICLES_def)
  with twinLeaf_diverges [of "Suc n"] show ?thesis unfolding Suc by simp
qed

text \<open>
  When \<^verbatim>\<open>computeForces\<close> returns forces, there is one for each particle, and the force
  at an index is what the traversal of the tree returns for the particle at that index.
\<close>

lemma forceLoop_nth:
  "forceLoop store t idx theta G softening = Inr fs \<Longrightarrow>
   length fs = length idx \<and>
   (\<forall>n<length idx. computeForce store t (idx ! n) (0, 0) theta G softening = Inr (fs ! n))"
proof (induction idx arbitrary: fs)
  case Nil
  then show ?case by simp
next
  case (Cons i idx)
  from Cons.prems obtain f fs' where
    h: "computeForce store t i (0, 0) theta G softening = Inr f"
    and r: "forceLoop store t idx theta G softening = Inr fs'" and e: "fs = f # fs'"
    by (auto split: sum.splits)
  from Cons.IH [OF r] h e show ?case
    by (auto simp: nth_Cons split: nat.splits)
qed

lemma computeForces_returned:
  assumes "computeForces_fl fl fuel theta ps G softening = Some (Inr fs)"
  shows "length fs = length ps \<and>
         (ps = [] \<or>
          (\<exists>t. build_fl fl fuel ps (newNode (rootBoundary_fl fl ps)) = Some t \<and>
               (\<forall>i<length ps. computeForce ps t i (0, 0) theta G softening = Inr (fs ! i))))"
proof (cases "ps = []")
  case True
  with assms show ?thesis by (simp add: computeForces_fl_def)
next
  case False
  with assms obtain t where
    b: "build_fl fl fuel ps (newNode (rootBoundary_fl fl ps)) = Some t"
    and f: "forceLoop ps t [0..<length ps] theta G softening = Inr fs"
    by (auto simp: computeForces_fl_def split: option.splits)
  from forceLoop_nth [OF f] b show ?thesis by auto
qed

text \<open>
  C4. On two particles at the same place \<^verbatim>\<open>computeForces\<close> returns nothing, whatever
  the fuel, \<open>theta\<close>, \<open>G\<close> and the softening: the root boundary has half-size 0, the
  second insertion subdivides the full leaf into four children of the same boundary,
  the stored particle goes to the first of them, and the insertion meets the same full
  leaf again, without end. All the values are 0 and are exact in binary32.
\<close>

theorem computeForces_twins_never_returns:
  "computeForces fuel theta twins G softening = None"
proof -
  have b: "rootBoundary twins = \<lparr>center = (0, 0), halfSize = 0\<rparr>"
    by (simp add: rootBoundary_fl_def findBounds_def twins_def body_def vadd_fl_def vmul_fl_def)
  have ne: "twins \<noteq> []" and up: "[0..<length twins] = [0, Suc 0]"
    by (simp_all add: twins_def upt_rec)
  have "build fuel twins (newNode \<lparr>center = (0, 0), halfSize = 0\<rparr>) = None"
    unfolding build_fl_def up using insertAll_twins [of fuel] by simp
  then show ?thesis
    unfolding computeForces_fl_def b using ne by simp
qed

end
